theory Spec2Isabelle
  imports Complex_Main
begin

section \<open>Ball pivoting surface reconstruction\<close>

text \<open>
  A shallow embedding of \<^verbatim>\<open>SurfaceReconstructionBallPivoting.cpp\<close>.
\<close>

subsection \<open>Floating-point arithmetic\<close>

text \<open>
  The type \<open>'d\<close> is the type of the values of a \<^verbatim>\<open>double\<close>. Its arithmetic is a parameter
  of every function of the engine: the operations of the record are those that the source
  applies to a \<^verbatim>\<open>double\<close>, and nothing is assumed of them. They may round, overflow, and
  give and take values that are not numbers; a comparison \<open>flt\<close> or \<open>fle\<close> may be false both
  ways. \<open>lit x\<close> is the \<^verbatim>\<open>double\<close> that the compiler gives a literal of value \<open>x\<close>;
  \<open>fsum3 x y z\<close> is the sum of three coefficients as \<^verbatim>\<open>Eigen\<close> reduces it in \<^verbatim>\<open>dot()\<close>
  and \<^verbatim>\<open>squaredNorm()\<close> (the order of association is that of the library).
  A comparison \<^verbatim>\<open>x > y\<close> of the source is \<open>flt y x\<close>, and \<^verbatim>\<open>x >= y\<close> is \<open>fle y x\<close>.
\<close>

record 'd arithmetic =
  lit :: "real \<Rightarrow> 'd"
  fadd :: "'d \<Rightarrow> 'd \<Rightarrow> 'd"
  fsub :: "'d \<Rightarrow> 'd \<Rightarrow> 'd"
  fmul :: "'d \<Rightarrow> 'd \<Rightarrow> 'd"
  fdiv :: "'d \<Rightarrow> 'd \<Rightarrow> 'd"
  fsum3 :: "'d \<Rightarrow> 'd \<Rightarrow> 'd \<Rightarrow> 'd"
  fsqrt :: "'d \<Rightarrow> 'd"
  facos :: "'d \<Rightarrow> 'd"
  flt :: "'d \<Rightarrow> 'd \<Rightarrow> bool"
  fle :: "'d \<Rightarrow> 'd \<Rightarrow> bool"

text \<open>\<^verbatim>\<open>std::min(a, b)\<close> is \<^verbatim>\<open>(b < a) ? b : a\<close>, and \<^verbatim>\<open>std::max(a, b)\<close> is
  \<^verbatim>\<open>(a < b) ? b : a\<close>.\<close>

definition std_min :: "'d arithmetic \<Rightarrow> 'd \<Rightarrow> 'd \<Rightarrow> 'd" where
  "std_min ar a b = (if flt ar b a then b else a)"

definition std_max :: "'d arithmetic \<Rightarrow> 'd \<Rightarrow> 'd \<Rightarrow> 'd" where
  "std_max ar a b = (if flt ar a b then b else a)"

text \<open>The absolute threshold \<^verbatim>\<open>1e-16\<close> of the source, and the value of the macro
  \<^verbatim>\<open>M_PI\<close>.\<close>

definition eps16 :: real where
  "eps16 = 1 / 10 ^ 16"

definition M_PI :: real where
  "M_PI = 314159265358979323846 / 10 ^ 20"

subsection \<open>Vectors\<close>

text \<open>An \<^verbatim>\<open>Eigen::Vector3d\<close> is a triple of coefficients. The operations of the source on
  vectors, coefficient by coefficient: \<open>fplus\<close> is \<^verbatim>\<open>u + v\<close>, \<open>fminus\<close> is \<^verbatim>\<open>u - v\<close>,
  \<open>fscale\<close> is \<^verbatim>\<open>k * v\<close>, \<open>ftimes\<close> is \<^verbatim>\<open>v *= k\<close>, \<open>fover\<close> is \<^verbatim>\<open>v /= k\<close>.\<close>

datatype 'd Vector3d = Vector3d (vx: 'd) (vy: 'd) (vz: 'd)

definition fplus :: "'d arithmetic \<Rightarrow> 'd Vector3d \<Rightarrow> 'd Vector3d \<Rightarrow> 'd Vector3d" where
  "fplus ar u v = Vector3d (fadd ar (vx u) (vx v)) (fadd ar (vy u) (vy v)) (fadd ar (vz u) (vz v))"

definition fminus :: "'d arithmetic \<Rightarrow> 'd Vector3d \<Rightarrow> 'd Vector3d \<Rightarrow> 'd Vector3d" where
  "fminus ar u v = Vector3d (fsub ar (vx u) (vx v)) (fsub ar (vy u) (vy v)) (fsub ar (vz u) (vz v))"

definition fscale :: "'d arithmetic \<Rightarrow> 'd \<Rightarrow> 'd Vector3d \<Rightarrow> 'd Vector3d" where
  "fscale ar k v = Vector3d (fmul ar k (vx v)) (fmul ar k (vy v)) (fmul ar k (vz v))"

definition ftimes :: "'d arithmetic \<Rightarrow> 'd Vector3d \<Rightarrow> 'd \<Rightarrow> 'd Vector3d" where
  "ftimes ar v k = Vector3d (fmul ar (vx v) k) (fmul ar (vy v) k) (fmul ar (vz v) k)"

definition fover :: "'d arithmetic \<Rightarrow> 'd Vector3d \<Rightarrow> 'd \<Rightarrow> 'd Vector3d" where
  "fover ar v k = Vector3d (fdiv ar (vx v) k) (fdiv ar (vy v) k) (fdiv ar (vz v) k)"

definition fdot :: "'d arithmetic \<Rightarrow> 'd Vector3d \<Rightarrow> 'd Vector3d \<Rightarrow> 'd" where
  "fdot ar u v = fsum3 ar (fmul ar (vx u) (vx v)) (fmul ar (vy u) (vy v)) (fmul ar (vz u) (vz v))"

definition fcross :: "'d arithmetic \<Rightarrow> 'd Vector3d \<Rightarrow> 'd Vector3d \<Rightarrow> 'd Vector3d" where
  "fcross ar u v =
    Vector3d (fsub ar (fmul ar (vy u) (vz v)) (fmul ar (vz u) (vy v)))
             (fsub ar (fmul ar (vz u) (vx v)) (fmul ar (vx u) (vz v)))
             (fsub ar (fmul ar (vx u) (vy v)) (fmul ar (vy u) (vx v)))"

definition fsquaredNorm :: "'d arithmetic \<Rightarrow> 'd Vector3d \<Rightarrow> 'd" where
  "fsquaredNorm ar v =
    fsum3 ar (fmul ar (vx v) (vx v)) (fmul ar (vy v) (vy v)) (fmul ar (vz v) (vz v))"

definition fnorm :: "'d arithmetic \<Rightarrow> 'd Vector3d \<Rightarrow> 'd" where
  "fnorm ar v = fsqrt ar (fsquaredNorm ar v)"

subsection \<open>Vertices, edges, triangles\<close>

datatype VertexType = Orphan | VFront | VInner

datatype EdgeType = Border | Front | Inner

text \<open>
  A \<^verbatim>\<open>BallPivotingVertexPtr\<close> is the index of the vertex in \<^verbatim>\<open>vertices\<close>, which
  is also its \<^verbatim>\<open>idx_\<close>. Edges and triangles are heap objects behind shared pointers:
  a pointer is the index of the object in an arena (\<open>edge_heap\<close>, \<open>triangle_heap\<close>),
  and \<open>None\<close> is \<^verbatim>\<open>nullptr\<close>. The \<^verbatim>\<open>unordered_set\<close> of the edges of a vertex is a
  list without repetitions; its iteration order is the order of insertion.
\<close>

record 'd BallPivotingVertex =
  point :: "'d Vector3d"
  normal :: "'d Vector3d"
  edges :: "nat list"
  vtype :: VertexType

record BallPivotingEdge =
  source :: nat
  target :: nat
  triangle0 :: "nat option"
  triangle1 :: "nat option"
  etype :: EdgeType

record 'd BallPivotingTriangle =
  vert0 :: nat
  vert1 :: nat
  vert2 :: nat
  ball_center :: "'d Vector3d"

subsection \<open>Geometric predicates\<close>

definition ComputeBallCenter ::
  "'d arithmetic \<Rightarrow> 'd BallPivotingVertex list \<Rightarrow> nat \<Rightarrow> nat \<Rightarrow> nat \<Rightarrow> 'd \<Rightarrow>
   'd Vector3d option" where
  "ComputeBallCenter ar vs vidx1 vidx2 vidx3 radius =
    (let v1 = point (vs ! vidx1);
         v2 = point (vs ! vidx2);
         v3 = point (vs ! vidx3);
         c = fsquaredNorm ar (fminus ar v2 v1);
         b = fsquaredNorm ar (fminus ar v1 v3);
         a = fsquaredNorm ar (fminus ar v3 v2);
         alpha = fmul ar a (fsub ar (fadd ar b c) a);
         beta = fmul ar b (fsub ar (fadd ar a c) b);
         gamma = fmul ar c (fsub ar (fadd ar a b) c);
         abg = fadd ar (fadd ar alpha beta) gamma
     in if flt ar abg (lit ar eps16) then None
        else
          let alpha1 = fdiv ar alpha abg;
              beta1 = fdiv ar beta abg;
              gamma1 = fdiv ar gamma abg;
              circ_center = fplus ar (fplus ar (fscale ar alpha1 v1) (fscale ar beta1 v2))
                              (fscale ar gamma1 v3);
              sa = fsqrt ar a;
              sb = fsqrt ar b;
              sc = fsqrt ar c;
              circ_radius2 = fdiv ar (fmul ar (fmul ar a b) c)
                 (fmul ar (fmul ar (fmul ar (fadd ar (fadd ar sa sb) sc)
                                            (fsub ar (fadd ar sb sc) sa))
                                   (fsub ar (fadd ar sc sa) sb))
                          (fsub ar (fadd ar sa sb) sc));
              height = fsub ar (fmul ar radius radius) circ_radius2
          in if fle ar (lit ar 0) height then
               let tr_norm0 = fcross ar (fminus ar v2 v1) (fminus ar v3 v1);
                   tr_norm1 = fover ar tr_norm0 (fnorm ar tr_norm0);
                   pt_norm0 = fplus ar (fplus ar (normal (vs ! vidx1)) (normal (vs ! vidx2)))
                                (normal (vs ! vidx3));
                   pt_norm = fover ar pt_norm0 (fnorm ar pt_norm0);
                   tr_norm = (if flt ar (fdot ar tr_norm1 pt_norm) (lit ar 0)
                              then ftimes ar tr_norm1 (lit ar (- 1))
                              else tr_norm1)
               in Some (fplus ar circ_center (fscale ar (fsqrt ar height) tr_norm))
             else None)"

definition ComputeFaceNormal ::
  "'d arithmetic \<Rightarrow> 'd Vector3d \<Rightarrow> 'd Vector3d \<Rightarrow> 'd Vector3d \<Rightarrow> 'd Vector3d" where
  "ComputeFaceNormal ar v0 v1 v2 =
    (let normal0 = fcross ar (fminus ar v1 v0) (fminus ar v2 v0);
         norm = fnorm ar normal0
     in if flt ar (lit ar 0) norm then fover ar normal0 norm else normal0)"

definition IsCompatible ::
  "'d arithmetic \<Rightarrow> 'd BallPivotingVertex list \<Rightarrow> nat \<Rightarrow> nat \<Rightarrow> nat \<Rightarrow> bool" where
  "IsCompatible ar vs v0 v1 v2 =
    (let normal0 = ComputeFaceNormal ar (point (vs ! v0)) (point (vs ! v1)) (point (vs ! v2));
         normal1 = (if flt ar (fdot ar normal0 (normal (vs ! v0))) (lit ar (- eps16))
                    then ftimes ar normal0 (lit ar (- 1))
                    else normal0)
     in flt ar (lit ar (- eps16)) (fdot ar normal1 (normal (vs ! v0))) \<and>
        flt ar (lit ar (- eps16)) (fdot ar normal1 (normal (vs ! v1))) \<and>
        flt ar (lit ar (- eps16)) (fdot ar normal1 (normal (vs ! v2))))"


subsection \<open>Errors\<close>

text \<open>
  \<^verbatim>\<open>utility::LogError\<close> throws: it is the error \<open>LogError\<close> with its message.
  Dereferencing a null pointer (undefined behaviour in the source) is the error
  \<open>NullDereference\<close>. \<^verbatim>\<open>utility::LogDebug\<close> only prints and is left out.
\<close>

datatype error = LogError string | NullDereference

subsection \<open>The edge and vertex methods\<close>

definition new_edge :: "nat \<Rightarrow> nat \<Rightarrow> BallPivotingEdge" where
  "new_edge src tgt =
    \<lparr>source = src, target = tgt, triangle0 = None, triangle1 = None, etype = Front\<rparr>"

definition GetOppositeVertex :: "'d BallPivotingTriangle list \<Rightarrow> BallPivotingEdge \<Rightarrow> nat option" where
  "GetOppositeVertex ts e =
    (case triangle0 e of
       Some t \<Rightarrow>
         if vert0 (ts ! t) \<noteq> source e \<and> vert0 (ts ! t) \<noteq> target e then Some (vert0 (ts ! t))
         else if vert1 (ts ! t) \<noteq> source e \<and> vert1 (ts ! t) \<noteq> target e
           then Some (vert1 (ts ! t))
         else Some (vert2 (ts ! t))
     | None \<Rightarrow> None)"

definition AddAdjacentTriangle ::
  "'d arithmetic \<Rightarrow> 'd BallPivotingVertex list \<Rightarrow> 'd BallPivotingTriangle list \<Rightarrow> nat \<Rightarrow> BallPivotingEdge \<Rightarrow>
   error + BallPivotingEdge" where
  "AddAdjacentTriangle ar vs ts triangle e =
    (if Some triangle \<noteq> triangle0 e \<and> Some triangle \<noteq> triangle1 e then
       if triangle0 e = None then
         let e1 = e\<lparr>triangle0 := Some triangle, etype := Front\<rparr>
         in case GetOppositeVertex ts e1 of
              Some opp \<Rightarrow>
                let tr_norm0 = fcross ar
                                 (fminus ar (point (vs ! target e1)) (point (vs ! source e1)))
                                 (fminus ar (point (vs ! opp)) (point (vs ! source e1)));
                    tr_norm = fover ar tr_norm0 (fnorm ar tr_norm0);
                    pt_norm0 = fplus ar
                                 (fplus ar (normal (vs ! source e1)) (normal (vs ! target e1)))
                                 (normal (vs ! opp));
                    pt_norm = fover ar pt_norm0 (fnorm ar pt_norm0)
                in if flt ar (fdot ar pt_norm tr_norm) (lit ar 0)
                   then Inr (e1\<lparr>source := target e1, target := source e1\<rparr>)
                   else Inr e1
            | None \<Rightarrow> Inl (LogError ''GetOppositeVertex() returns nullptr.'')
       else if triangle1 e = None then Inr (e\<lparr>triangle1 := Some triangle, etype := Inner\<rparr>)
       else Inr e
     else Inr e)"

definition UpdateType :: "BallPivotingEdge list \<Rightarrow> 'd BallPivotingVertex \<Rightarrow> 'd BallPivotingVertex" where
  "UpdateType es v =
    (if edges v = [] then v\<lparr>vtype := Orphan\<rparr>
     else if list_ex (\<lambda>edge. etype (es ! edge) \<noteq> Inner) (edges v) then v\<lparr>vtype := VFront\<rparr>
     else v\<lparr>vtype := VInner\<rparr>)"

subsection \<open>The engine\<close>

text \<open>
  The spatial index and the intersection tests are not part of this file. The index is its
  radius search (the indices found; the squared distances are never read), the intersection
  tests are two functions.
\<close>

record 'd IntersectionTest =
  PointsCoplanar :: "'d Vector3d \<Rightarrow> 'd Vector3d \<Rightarrow> 'd Vector3d \<Rightarrow> 'd Vector3d \<Rightarrow> bool"
  LineSegmentsMinimumDistance :: "'d Vector3d \<Rightarrow> 'd Vector3d \<Rightarrow> 'd Vector3d \<Rightarrow> 'd Vector3d \<Rightarrow> 'd"

record 'd PointCloud =
  points :: "'d Vector3d list"
  normals :: "'d Vector3d list"
  HasNormals :: bool

record 'd BallPivoting =
  has_normals :: bool
  SearchRadius :: "'d Vector3d \<Rightarrow> 'd \<Rightarrow> nat list"
  edge_front :: "nat list"
  border_edges :: "nat list"
  vertices :: "'d BallPivotingVertex list"
  edge_heap :: "BallPivotingEdge list"
  triangle_heap :: "'d BallPivotingTriangle list"
  mesh_triangles :: "(nat \<times> nat \<times> nat) list"
  mesh_triangle_normals :: "'d Vector3d list"

definition BallPivoting_new ::
  "('d Vector3d \<Rightarrow> 'd \<Rightarrow> nat list) \<Rightarrow> 'd PointCloud \<Rightarrow> 'd BallPivoting" where
  "BallPivoting_new kdtree pcd =
    \<lparr>has_normals = HasNormals pcd,
     SearchRadius = kdtree,
     edge_front = [],
     border_edges = [],
     vertices = map (\<lambda>vidx. \<lparr>point = points pcd ! vidx, normal = normals pcd ! vidx,
                               edges = [], vtype = Orphan\<rparr>) [0..<length (points pcd)],
     edge_heap = [],
     triangle_heap = [],
     mesh_triangles = [],
     mesh_triangle_normals = []\<rparr>"

definition GetLinkingEdge :: "'d BallPivoting \<Rightarrow> nat \<Rightarrow> nat \<Rightarrow> nat option" where
  "GetLinkingEdge s v0 v1 =
    find (\<lambda>edge0. list_ex (\<lambda>edge1.
              source (edge_heap s ! edge0) = source (edge_heap s ! edge1) \<and>
              target (edge_heap s ! edge0) = target (edge_heap s ! edge1))
            (edges (vertices s ! v1)))
         (edges (vertices s ! v0))"

definition insert_edge :: "nat \<Rightarrow> nat \<Rightarrow> 'd BallPivotingVertex list \<Rightarrow> 'd BallPivotingVertex list" where
  "insert_edge v e vs = vs[v := (vs ! v)\<lparr>edges := List.insert e (edges (vs ! v))\<rparr>]"

text \<open>
  The block that \<^verbatim>\<open>CreateTriangle\<close> repeats for each of the three sides: look the edge
  up or allocate it, register the triangle on it, insert it into both end points.
\<close>

definition CreateTriangle_side :: "'d arithmetic \<Rightarrow> nat \<Rightarrow> nat \<Rightarrow> nat \<Rightarrow> 'd BallPivoting \<Rightarrow> error + 'd BallPivoting" where
  "CreateTriangle_side ar triangle va vb s =
    (let (e, heap) = (case GetLinkingEdge s va vb of
                        Some e \<Rightarrow> (e, edge_heap s)
                      | None \<Rightarrow> (length (edge_heap s), edge_heap s @ [new_edge va vb]))
     in case AddAdjacentTriangle ar (vertices s) (triangle_heap s) triangle (heap ! e) of
          Inl err \<Rightarrow> Inl err
        | Inr e' \<Rightarrow>
            Inr (s\<lparr>edge_heap := heap[e := e'],
                   vertices := insert_edge vb e (insert_edge va e (vertices s))\<rparr>))"

definition update_types :: "nat \<Rightarrow> 'd BallPivoting \<Rightarrow> 'd BallPivoting" where
  "update_types v s = s\<lparr>vertices := (vertices s)[v := UpdateType (edge_heap s) (vertices s ! v)]\<rparr>"

definition emit_triangle :: "'d arithmetic \<Rightarrow> nat \<Rightarrow> nat \<Rightarrow> nat \<Rightarrow> 'd BallPivoting \<Rightarrow> 'd BallPivoting" where
  "emit_triangle ar v0 v1 v2 s =
    (let face_normal = ComputeFaceNormal ar (point (vertices s ! v0)) (point (vertices s ! v1))
                                         (point (vertices s ! v2))
     in s\<lparr>mesh_triangles := mesh_triangles s @
              [if flt ar (lit ar (- eps16)) (fdot ar face_normal (normal (vertices s ! v0)))
               then (v0, v1, v2)
               else (v0, v2, v1)],
           mesh_triangle_normals := mesh_triangle_normals s @ [face_normal]\<rparr>)"

definition CreateTriangle ::
  "'d arithmetic \<Rightarrow> nat \<Rightarrow> nat \<Rightarrow> nat \<Rightarrow> 'd Vector3d \<Rightarrow> 'd BallPivoting \<Rightarrow> error + 'd BallPivoting" where
  "CreateTriangle ar v0 v1 v2 center s =
    (let triangle = length (triangle_heap s);
         s0 = s\<lparr>triangle_heap := triangle_heap s @
                  [\<lparr>vert0 = v0, vert1 = v1, vert2 = v2, ball_center = center\<rparr>]\<rparr>
     in case CreateTriangle_side ar triangle v0 v1 s0 of
          Inl err \<Rightarrow> Inl err
        | Inr s1 \<Rightarrow>
           (case CreateTriangle_side ar triangle v1 v2 s1 of
              Inl err \<Rightarrow> Inl err
            | Inr s2 \<Rightarrow>
               (case CreateTriangle_side ar triangle v2 v0 s2 of
                  Inl err \<Rightarrow> Inl err
                | Inr s3 \<Rightarrow>
                    Inr (emit_triangle ar v0 v1 v2
                          (update_types v2 (update_types v1 (update_types v0 s3)))))))"


subsection \<open>The pivoting engine\<close>

text \<open>One iteration of the candidate loop of \<^verbatim>\<open>FindCandidateVertex\<close>. The accumulator is
  \<^verbatim>\<open>min_candidate\<close> together with \<^verbatim>\<open>candidate_center\<close>, and \<^verbatim>\<open>min_angle\<close>.\<close>

definition FindCandidateVertex_visit ::
  "'d arithmetic \<Rightarrow> 'd IntersectionTest \<Rightarrow> 'd BallPivoting \<Rightarrow> 'd \<Rightarrow> nat \<Rightarrow> nat \<Rightarrow> nat \<Rightarrow> 'd Vector3d \<Rightarrow> 'd Vector3d \<Rightarrow>
   'd Vector3d \<Rightarrow> nat list \<Rightarrow> nat \<Rightarrow> (nat \<times> 'd Vector3d) option \<times> 'd \<Rightarrow>
   (nat \<times> 'd Vector3d) option \<times> 'd" where
  "FindCandidateVertex_visit ar it s radius src tgt opp mp v a indices nbidx acc =
    (let vs = vertices s;
         min_angle = snd acc
     in if nbidx = src \<or> nbidx = tgt \<or> nbidx = opp then acc
        else if PointsCoplanar it (point (vs ! src)) (point (vs ! tgt)) (point (vs ! opp))
                  (point (vs ! nbidx)) \<and>
                (flt ar (LineSegmentsMinimumDistance it mp (point (vs ! nbidx))
                           (point (vs ! src)) (point (vs ! opp))) (lit ar (1 / 10 ^ 12)) \<or>
                 flt ar (LineSegmentsMinimumDistance it mp (point (vs ! nbidx))
                           (point (vs ! tgt)) (point (vs ! opp))) (lit ar (1 / 10 ^ 12)))
          then acc
        else
          case ComputeBallCenter ar vs src tgt nbidx radius of
            None \<Rightarrow> acc
          | Some new_center \<Rightarrow>
              let b0 = fminus ar new_center mp;
                  b = fover ar b0 (fnorm ar b0);
                  cosinus0 = fdot ar a b;
                  cosinus1 = std_min ar cosinus0 (lit ar 1);
                  cosinus = std_max ar cosinus1 (lit ar (- 1));
                  angle0 = facos ar cosinus;
                  c = fcross ar a b;
                  angle = (if flt ar (fdot ar c v) (lit ar 0)
                           then fsub ar (fmul ar (lit ar 2) (lit ar M_PI)) angle0
                           else angle0)
              in if fle ar min_angle angle then acc
                 else if list_all (\<lambda>nbidx2.
                            nbidx2 = src \<or> nbidx2 = tgt \<or> nbidx2 = nbidx \<or>
                            \<not> flt ar (fnorm ar (fminus ar new_center (point (vs ! nbidx2))))
                                 (fsub ar radius (lit ar eps16)))
                          indices
                   then (Some (nbidx, new_center), angle)
                 else acc)"

definition FindCandidateVertex ::
  "'d arithmetic \<Rightarrow> 'd IntersectionTest \<Rightarrow> nat \<Rightarrow> 'd \<Rightarrow> 'd BallPivoting \<Rightarrow> error + (nat \<times> 'd Vector3d) option" where
  "FindCandidateVertex ar it edge radius s =
    (let e = edge_heap s ! edge;
         vs = vertices s;
         src = source e;
         tgt = target e
     in case GetOppositeVertex (triangle_heap s) e of
          None \<Rightarrow> Inl (LogError ''edge->GetOppositeVertex() returns nullptr.'')
        | Some opp \<Rightarrow>
           (case triangle0 e of
              None \<Rightarrow> Inl NullDereference
            | Some triangle \<Rightarrow>
                let mp = fscale ar (lit ar (1 / 2)) (fplus ar (point (vs ! src)) (point (vs ! tgt)));
                    center = ball_center (triangle_heap s ! triangle);
                    v0 = fminus ar (point (vs ! tgt)) (point (vs ! src));
                    v = fover ar v0 (fnorm ar v0);
                    a0 = fminus ar center mp;
                    a = fover ar a0 (fnorm ar a0);
                    indices = SearchRadius s mp (fmul ar (lit ar 2) radius)
                in Inr (fst (fold (FindCandidateVertex_visit ar it s radius src tgt opp mp v a
                                     indices)
                                  indices (None, fmul ar (lit ar 2) (lit ar M_PI))))))"

definition is_not_front :: "'d BallPivoting \<Rightarrow> nat option \<Rightarrow> bool" where
  "is_not_front s e = (case e of None \<Rightarrow> False | Some e0 \<Rightarrow> etype (edge_heap s ! e0) \<noteq> Front)"

definition mark_border :: "nat \<Rightarrow> 'd BallPivoting \<Rightarrow> 'd BallPivoting" where
  "mark_border edge s =
    s\<lparr>edge_heap := (edge_heap s)[edge := (edge_heap s ! edge)\<lparr>etype := Border\<rparr>],
      border_edges := border_edges s @ [edge]\<rparr>"

definition push_front_if_front :: "nat \<Rightarrow> 'd BallPivoting \<Rightarrow> 'd BallPivoting" where
  "push_front_if_front e s =
    (if etype (edge_heap s ! e) = Front then s\<lparr>edge_front := e # edge_front s\<rparr> else s)"

text \<open>The body of the loop of \<^verbatim>\<open>ExpandTriangulation\<close>, on a queue that is not empty.\<close>

definition ExpandTriangulation_step ::
  "'d arithmetic \<Rightarrow> 'd IntersectionTest \<Rightarrow> 'd \<Rightarrow> 'd BallPivoting \<Rightarrow> error + 'd BallPivoting" where
  "ExpandTriangulation_step ar it radius s =
    (case edge_front s of
       [] \<Rightarrow> Inr s
     | edge # rest \<Rightarrow>
        let s1 = s\<lparr>edge_front := rest\<rparr>
        in if etype (edge_heap s1 ! edge) \<noteq> Front then Inr s1
           else
             case FindCandidateVertex ar it edge radius s1 of
               Inl err \<Rightarrow> Inl err
             | Inr None \<Rightarrow> Inr (mark_border edge s1)
             | Inr (Some (candidate, center)) \<Rightarrow>
                 let src = source (edge_heap s1 ! edge);
                     tgt = target (edge_heap s1 ! edge)
                 in if vtype (vertices s1 ! candidate) = VInner \<or>
                       \<not> IsCompatible ar (vertices s1) candidate src tgt
                    then Inr (mark_border edge s1)
                    else if is_not_front s1 (GetLinkingEdge s1 candidate src) \<or>
                            is_not_front s1 (GetLinkingEdge s1 candidate tgt)
                    then Inr (mark_border edge s1)
                    else
                      case CreateTriangle ar src tgt candidate center s1 of
                        Inl err \<Rightarrow> Inl err
                      | Inr s2 \<Rightarrow>
                         (case GetLinkingEdge s2 candidate (source (edge_heap s2 ! edge)) of
                            None \<Rightarrow> Inl NullDereference
                          | Some e0 \<Rightarrow>
                             (case GetLinkingEdge s2 candidate (target (edge_heap s2 ! edge)) of
                                None \<Rightarrow> Inl NullDereference
                              | Some e1 \<Rightarrow>
                                  Inr (push_front_if_front e1 (push_front_if_front e0 s2)))))"

partial_function (option) ExpandTriangulation ::
  "'d arithmetic \<Rightarrow> 'd IntersectionTest \<Rightarrow> 'd \<Rightarrow> 'd BallPivoting \<Rightarrow> (error + 'd BallPivoting) option" where
  "ExpandTriangulation ar it radius s =
    (if edge_front s = [] then Some (Inr s)
     else case ExpandTriangulation_step ar it radius s of
            Inl err \<Rightarrow> Some (Inl err)
          | Inr s1 \<Rightarrow> ExpandTriangulation ar it radius s1)"

subsection \<open>The seed finder\<close>

definition TryTriangleSeed ::
  "'d arithmetic \<Rightarrow> 'd BallPivoting \<Rightarrow> nat \<Rightarrow> nat \<Rightarrow> nat \<Rightarrow> nat list \<Rightarrow> 'd \<Rightarrow> 'd Vector3d option" where
  "TryTriangleSeed ar s v0 v1 v2 nb_indices radius =
    (if \<not> IsCompatible ar (vertices s) v0 v1 v2 then None
     else if (case GetLinkingEdge s v0 v2 of None \<Rightarrow> False
              | Some e0 \<Rightarrow> etype (edge_heap s ! e0) = Inner) then None
     else if (case GetLinkingEdge s v1 v2 of None \<Rightarrow> False
              | Some e1 \<Rightarrow> etype (edge_heap s ! e1) = Inner) then None
     else
       case ComputeBallCenter ar (vertices s) v0 v1 v2 radius of
         None \<Rightarrow> None
       | Some center \<Rightarrow>
           if list_ex (\<lambda>nbidx. \<not> (nbidx = v0 \<or> nbidx = v1 \<or> nbidx = v2) \<and>
                         flt ar (fnorm ar (fminus ar center (point (vertices s ! nbidx))))
                           (fsub ar radius (lit ar eps16)))
                nb_indices
           then None
           else Some center)"

text \<open>The inner loop of \<^verbatim>\<open>TrySeed\<close> over the hits after \<^verbatim>\<open>nbidx0\<close>: the first
  \<^verbatim>\<open>nb1\<close> that gives a seed, with the ball center.\<close>

fun TrySeed_inner ::
  "'d arithmetic \<Rightarrow> 'd BallPivoting \<Rightarrow> nat \<Rightarrow> nat \<Rightarrow> nat list \<Rightarrow> 'd \<Rightarrow> nat list \<Rightarrow> (nat \<times> 'd Vector3d) option" where
  "TrySeed_inner ar s v nb0 indices radius [] = None"
| "TrySeed_inner ar s v nb0 indices radius (nb1 # later) =
    (if vtype (vertices s ! nb1) \<noteq> Orphan then TrySeed_inner ar s v nb0 indices radius later
     else if nb1 = v then TrySeed_inner ar s v nb0 indices radius later
     else case TryTriangleSeed ar s v nb0 nb1 indices radius of
            Some center \<Rightarrow> Some (nb1, center)
          | None \<Rightarrow> TrySeed_inner ar s v nb0 indices radius later)"

text \<open>The outer loop of \<^verbatim>\<open>TrySeed\<close>; the fourth argument is the rest of the hits, from
  \<^verbatim>\<open>nbidx0\<close> on.\<close>

fun TrySeed_loop ::
  "'d arithmetic \<Rightarrow> nat \<Rightarrow> 'd \<Rightarrow> nat list \<Rightarrow> nat list \<Rightarrow> 'd BallPivoting \<Rightarrow> error + (bool \<times> 'd BallPivoting)" where
  "TrySeed_loop ar v radius indices [] s = Inr (False, s)"
| "TrySeed_loop ar v radius indices (nb0 # later) s =
    (if vtype (vertices s ! nb0) \<noteq> Orphan then TrySeed_loop ar v radius indices later s
     else if nb0 = v then TrySeed_loop ar v radius indices later s
     else
       case TrySeed_inner ar s v nb0 indices radius later of
         None \<Rightarrow> TrySeed_loop ar v radius indices later s
       | Some (nb1, center) \<Rightarrow>
           if is_not_front s (GetLinkingEdge s v nb1) then TrySeed_loop ar v radius indices later s
           else if is_not_front s (GetLinkingEdge s nb0 nb1)
             then TrySeed_loop ar v radius indices later s
           else if is_not_front s (GetLinkingEdge s v nb0)
             then TrySeed_loop ar v radius indices later s
           else
             case CreateTriangle ar v nb0 nb1 center s of
               Inl err \<Rightarrow> Inl err
             | Inr s1 \<Rightarrow>
                (case GetLinkingEdge s1 v nb1 of
                   None \<Rightarrow> Inl NullDereference
                 | Some e0 \<Rightarrow>
                    (case GetLinkingEdge s1 nb0 nb1 of
                       None \<Rightarrow> Inl NullDereference
                     | Some e1 \<Rightarrow>
                        (case GetLinkingEdge s1 v nb0 of
                           None \<Rightarrow> Inl NullDereference
                         | Some e2 \<Rightarrow>
                             let s2 = push_front_if_front e2
                                        (push_front_if_front e1 (push_front_if_front e0 s1))
                             in if length (edge_front s2) > 0 then Inr (True, s2)
                                else TrySeed_loop ar v radius indices later s2))))"

definition TrySeed :: "'d arithmetic \<Rightarrow> nat \<Rightarrow> 'd \<Rightarrow> 'd BallPivoting \<Rightarrow> error + (bool \<times> 'd BallPivoting)" where
  "TrySeed ar v radius s =
    (let indices = SearchRadius s (point (vertices s ! v)) (fmul ar (lit ar 2) radius)
     in if length indices < 3 then Inr (False, s)
        else TrySeed_loop ar v radius indices indices s)"

fun FindSeedTriangle_loop ::
  "'d arithmetic \<Rightarrow> 'd IntersectionTest \<Rightarrow> 'd \<Rightarrow> nat list \<Rightarrow> 'd BallPivoting \<Rightarrow> (error + 'd BallPivoting) option" where
  "FindSeedTriangle_loop ar it radius [] s = Some (Inr s)"
| "FindSeedTriangle_loop ar it radius (vidx # rest) s =
    (if vtype (vertices s ! vidx) = Orphan then
       case TrySeed ar vidx radius s of
         Inl err \<Rightarrow> Some (Inl err)
       | Inr (True, s1) \<Rightarrow>
          (case ExpandTriangulation ar it radius s1 of
             None \<Rightarrow> None
           | Some (Inl err) \<Rightarrow> Some (Inl err)
           | Some (Inr s2) \<Rightarrow> FindSeedTriangle_loop ar it radius rest s2)
       | Inr (False, s1) \<Rightarrow> FindSeedTriangle_loop ar it radius rest s1
     else FindSeedTriangle_loop ar it radius rest s)"

definition FindSeedTriangle ::
  "'d arithmetic \<Rightarrow> 'd IntersectionTest \<Rightarrow> 'd \<Rightarrow> 'd BallPivoting \<Rightarrow> (error + 'd BallPivoting) option" where
  "FindSeedTriangle ar it radius s =
     FindSeedTriangle_loop ar it radius [0..<length (vertices s)] s"

subsection \<open>The radius driver\<close>

text \<open>The empty-ball test of the border revisit, for a triangle and the center of its ball.\<close>

definition border_ball_empty :: "'d BallPivoting \<Rightarrow> 'd BallPivotingTriangle \<Rightarrow> 'd Vector3d \<Rightarrow> 'd \<Rightarrow> bool" where
  "border_ball_empty s triangle center radius =
    list_all (\<lambda>idx. \<not> (idx \<noteq> vert0 triangle \<and> idx \<noteq> vert1 triangle \<and> idx \<noteq> vert2 triangle))
      (SearchRadius s center radius)"

text \<open>The scan of the border list at a radius change. The third argument is the part of the
  list from the iterator on; the result holds the edges that stay, in \<open>border_edges\<close>, after
  those that stayed before.\<close>

fun update_border_edges :: "'d arithmetic \<Rightarrow> 'd \<Rightarrow> nat list \<Rightarrow> 'd BallPivoting \<Rightarrow> error + 'd BallPivoting" where
  "update_border_edges ar radius [] s = Inr s"
| "update_border_edges ar radius (edge # rest) s =
    (case triangle0 (edge_heap s ! edge) of
       None \<Rightarrow> Inl NullDereference
     | Some t \<Rightarrow>
        let triangle = triangle_heap s ! t
        in case ComputeBallCenter ar (vertices s) (vert0 triangle) (vert1 triangle) (vert2 triangle)
                  radius of
             Some center \<Rightarrow>
               if border_ball_empty s triangle center radius
               then update_border_edges ar radius rest
                      (s\<lparr>edge_heap := (edge_heap s)[edge := (edge_heap s ! edge)\<lparr>etype := Front\<rparr>],
                         edge_front := edge_front s @ [edge]\<rparr>)
               else update_border_edges ar radius rest (s\<lparr>border_edges := border_edges s @ [edge]\<rparr>)
           | None \<Rightarrow> update_border_edges ar radius rest (s\<lparr>border_edges := border_edges s @ [edge]\<rparr>))"

text \<open>The body of the loop of \<^verbatim>\<open>Run\<close> for one radius.\<close>

definition Run_radius ::
  "'d arithmetic \<Rightarrow> 'd IntersectionTest \<Rightarrow> 'd \<Rightarrow> 'd BallPivoting \<Rightarrow> (error + 'd BallPivoting) option" where
  "Run_radius ar it radius s =
    (if fle ar radius (lit ar 0) then Some (Inl (LogError ''got an invalid, negative radius as parameter''))
     else
       case update_border_edges ar radius (border_edges s) (s\<lparr>border_edges := []\<rparr>) of
         Inl err \<Rightarrow> Some (Inl err)
       | Inr s1 \<Rightarrow>
           if edge_front s1 = [] then FindSeedTriangle ar it radius s1
           else ExpandTriangulation ar it radius s1)"

fun Run_loop ::
  "'d arithmetic \<Rightarrow> 'd IntersectionTest \<Rightarrow> 'd list \<Rightarrow> 'd BallPivoting \<Rightarrow> (error + 'd BallPivoting) option" where
  "Run_loop ar it [] s = Some (Inr s)"
| "Run_loop ar it (radius # radii) s =
    (case Run_radius ar it radius s of
       None \<Rightarrow> None
     | Some (Inl err) \<Rightarrow> Some (Inl err)
     | Some (Inr s1) \<Rightarrow> Run_loop ar it radii s1)"

text \<open>\<open>Run\<close> returns the engine; the mesh that the source returns is its fields
  \<open>mesh_triangles\<close> and \<open>mesh_triangle_normals\<close>. \<open>None\<close> is a run that never returns.\<close>

definition Run :: "'d arithmetic \<Rightarrow> 'd IntersectionTest \<Rightarrow> 'd list \<Rightarrow> 'd BallPivoting \<Rightarrow> (error + 'd BallPivoting) option" where
  "Run ar it radii s =
    (if \<not> has_normals s then Some (Inl (LogError ''ReconstructBallPivoting requires normals''))
     else Run_loop ar it radii (s\<lparr>mesh_triangles := []\<rparr>))"

definition CreateFromPointCloudBallPivoting ::
  "'d arithmetic \<Rightarrow> 'd IntersectionTest \<Rightarrow> ('d Vector3d \<Rightarrow> 'd \<Rightarrow> nat list) \<Rightarrow> 'd PointCloud \<Rightarrow> 'd list \<Rightarrow>
   (error + 'd BallPivoting) option" where
  "CreateFromPointCloudBallPivoting ar it kdtree pcd radii = Run ar it radii (BallPivoting_new kdtree pcd)"


subsection \<open>Exact arithmetic\<close>

text \<open>
  The arithmetic of the real numbers, without rounding: the one in which the specification
  reads the formulas of the source. It is one arithmetic among all, not that of the machine:
  a quotient by zero is zero in it, where the machine gives an infinity or a value that is not
  a number (no example below divides by zero). The vectors over the reals have their algebra.
\<close>

definition exact :: "real arithmetic" where
  "exact = \<lparr>lit = (\<lambda>x. x), fadd = (+), fsub = (-), fmul = (*), fdiv = (/),
             fsum3 = (\<lambda>x y z. x + y + z), fsqrt = sqrt, facos = arccos,
             flt = (<), fle = (\<le>)\<rparr>"

instantiation Vector3d :: (ab_group_add) "{zero, plus, minus, uminus}"
begin

definition zero_Vector3d :: "'a Vector3d" where
  "zero_Vector3d = Vector3d 0 0 0"

definition plus_Vector3d :: "'a Vector3d \<Rightarrow> 'a Vector3d \<Rightarrow> 'a Vector3d" where
  "plus_Vector3d u v = Vector3d (vx u + vx v) (vy u + vy v) (vz u + vz v)"

definition minus_Vector3d :: "'a Vector3d \<Rightarrow> 'a Vector3d \<Rightarrow> 'a Vector3d" where
  "minus_Vector3d u v = Vector3d (vx u - vx v) (vy u - vy v) (vz u - vz v)"

definition uminus_Vector3d :: "'a Vector3d \<Rightarrow> 'a Vector3d" where
  "uminus_Vector3d u = Vector3d (- vx u) (- vy u) (- vz u)"

instance ..

end

definition scale :: "real \<Rightarrow> real Vector3d \<Rightarrow> real Vector3d" where
  "scale k v = Vector3d (k * vx v) (k * vy v) (k * vz v)"

definition divide_by :: "real Vector3d \<Rightarrow> real \<Rightarrow> real Vector3d" where
  "divide_by v k = Vector3d (vx v / k) (vy v / k) (vz v / k)"

definition dot :: "real Vector3d \<Rightarrow> real Vector3d \<Rightarrow> real" where
  "dot u v = vx u * vx v + vy u * vy v + vz u * vz v"

definition cross :: "real Vector3d \<Rightarrow> real Vector3d \<Rightarrow> real Vector3d" where
  "cross u v = Vector3d (vy u * vz v - vz u * vy v)
                        (vz u * vx v - vx u * vz v)
                        (vx u * vy v - vy u * vx v)"

definition squaredNorm :: "real Vector3d \<Rightarrow> real" where
  "squaredNorm v = dot v v"

definition vnorm :: "real Vector3d \<Rightarrow> real" where
  "vnorm v = sqrt (squaredNorm v)"


subsection \<open>The specification of the geometric predicates\<close>

text \<open>The quantities of \<open>ComputeBallCenter\<close> as the source computes them, in the arithmetic
  of the source: the sum \<^verbatim>\<open>abg\<close> of the weights, the center \<^verbatim>\<open>circ_center\<close> of the
  circumcircle, the squared height \<^verbatim>\<open>height\<close> of the ball center over the triangle, and the
  normal \<^verbatim>\<open>tr_norm\<close> of the triangle, turned over when its dot with the normalized sum \<open>ns\<close>
  of the vertex normals is negative.\<close>

definition computed_weight_sum :: "'d arithmetic \<Rightarrow> 'd Vector3d \<Rightarrow> 'd Vector3d \<Rightarrow> 'd Vector3d \<Rightarrow> 'd" where
  "computed_weight_sum ar v1 v2 v3 =
    (let c = fsquaredNorm ar (fminus ar v2 v1);
         b = fsquaredNorm ar (fminus ar v1 v3);
         a = fsquaredNorm ar (fminus ar v3 v2)
     in fadd ar (fadd ar (fmul ar a (fsub ar (fadd ar b c) a))
                         (fmul ar b (fsub ar (fadd ar a c) b)))
                (fmul ar c (fsub ar (fadd ar a b) c)))"

definition computed_circumcenter ::
  "'d arithmetic \<Rightarrow> 'd Vector3d \<Rightarrow> 'd Vector3d \<Rightarrow> 'd Vector3d \<Rightarrow> 'd Vector3d" where
  "computed_circumcenter ar v1 v2 v3 =
    (let c = fsquaredNorm ar (fminus ar v2 v1);
         b = fsquaredNorm ar (fminus ar v1 v3);
         a = fsquaredNorm ar (fminus ar v3 v2);
         abg = computed_weight_sum ar v1 v2 v3
     in fplus ar
          (fplus ar (fscale ar (fdiv ar (fmul ar a (fsub ar (fadd ar b c) a)) abg) v1)
                    (fscale ar (fdiv ar (fmul ar b (fsub ar (fadd ar a c) b)) abg) v2))
          (fscale ar (fdiv ar (fmul ar c (fsub ar (fadd ar a b) c)) abg) v3))"

definition computed_height2 ::
  "'d arithmetic \<Rightarrow> 'd Vector3d \<Rightarrow> 'd Vector3d \<Rightarrow> 'd Vector3d \<Rightarrow> 'd \<Rightarrow> 'd" where
  "computed_height2 ar v1 v2 v3 radius =
    (let c = fsquaredNorm ar (fminus ar v2 v1);
         b = fsquaredNorm ar (fminus ar v1 v3);
         a = fsquaredNorm ar (fminus ar v3 v2);
         sa = fsqrt ar a;
         sb = fsqrt ar b;
         sc = fsqrt ar c
     in fsub ar (fmul ar radius radius)
          (fdiv ar (fmul ar (fmul ar a b) c)
             (fmul ar (fmul ar (fmul ar (fadd ar (fadd ar sa sb) sc)
                                        (fsub ar (fadd ar sb sc) sa))
                               (fsub ar (fadd ar sc sa) sb))
                      (fsub ar (fadd ar sa sb) sc))))"

definition computed_normal ::
  "'d arithmetic \<Rightarrow> 'd Vector3d \<Rightarrow> 'd Vector3d \<Rightarrow> 'd Vector3d \<Rightarrow> 'd Vector3d \<Rightarrow> 'd Vector3d" where
  "computed_normal ar v1 v2 v3 ns =
    (let tr_norm0 = fcross ar (fminus ar v2 v1) (fminus ar v3 v1);
         tr_norm1 = fover ar tr_norm0 (fnorm ar tr_norm0);
         pt_norm = fover ar ns (fnorm ar ns)
     in if flt ar (fdot ar tr_norm1 pt_norm) (lit ar 0) then ftimes ar tr_norm1 (lit ar (- 1))
        else tr_norm1)"

text \<open>The quantities of the specification of \<open>ComputeBallCenter\<close>, over the reals.\<close>

definition barycentric_sum :: "real Vector3d \<Rightarrow> real Vector3d \<Rightarrow> real Vector3d \<Rightarrow> real" where
  "barycentric_sum v1 v2 v3 =
    (let a = squaredNorm (v3 - v2); b = squaredNorm (v1 - v3); c = squaredNorm (v2 - v1)
     in a * (b + c - a) + b * (a + c - b) + c * (a + b - c))"

definition circumcenter :: "real Vector3d \<Rightarrow> real Vector3d \<Rightarrow> real Vector3d \<Rightarrow> real Vector3d" where
  "circumcenter v1 v2 v3 =
    (let a = squaredNorm (v3 - v2); b = squaredNorm (v1 - v3); c = squaredNorm (v2 - v1);
         S = barycentric_sum v1 v2 v3
     in scale (a * (b + c - a) / S) v1 + scale (b * (a + c - b) / S) v2
        + scale (c * (a + b - c) / S) v3)"

definition circumradius2 :: "real Vector3d \<Rightarrow> real Vector3d \<Rightarrow> real Vector3d \<Rightarrow> real" where
  "circumradius2 v1 v2 v3 =
    (let a = squaredNorm (v3 - v2); b = squaredNorm (v1 - v3); c = squaredNorm (v2 - v1)
     in (a * b * c) /
        ((sqrt a + sqrt b + sqrt c) * (- sqrt a + sqrt b + sqrt c) * (sqrt a - sqrt b + sqrt c)
         * (sqrt a + sqrt b - sqrt c)))"

definition triangle_unit_normal :: "real Vector3d \<Rightarrow> real Vector3d \<Rightarrow> real Vector3d \<Rightarrow> real Vector3d" where
  "triangle_unit_normal v1 v2 v3 =
     divide_by (cross (v2 - v1) (v3 - v1)) (vnorm (cross (v2 - v1) (v3 - v1)))"


text \<open>\<open>IsCompatible\<close> in the words of the specification: the face normal is oriented so that
  its dot with the normal of \<open>v0\<close> is not negative, and the three dots are at least
  \<open>- eps16\<close>.\<close>

definition IsCompatible_as_specified ::
  "real BallPivotingVertex list \<Rightarrow> nat \<Rightarrow> nat \<Rightarrow> nat \<Rightarrow> bool" where
  "IsCompatible_as_specified vs v0 v1 v2 =
    (let n0 = ComputeFaceNormal exact (point (vs ! v0)) (point (vs ! v1)) (point (vs ! v2));
         n = (if dot n0 (normal (vs ! v0)) < 0 then - n0 else n0)
     in - eps16 \<le> dot n (normal (vs ! v0)) \<and>
        - eps16 \<le> dot n (normal (vs ! v1)) \<and>
        - eps16 \<le> dot n (normal (vs ! v2)))"

subsection \<open>The conditions of the specification of the engine\<close>

text \<open>The answer of \<^verbatim>\<open>FindCandidateVertex\<close> for an edge is rejected: there is no candidate, or
  the candidate is an inner vertex, or it is not compatible with the edge, or an edge from the
  candidate to an end of the edge exists and is not a front edge.\<close>

definition candidate_rejected ::
  "'d arithmetic \<Rightarrow> 'd BallPivoting \<Rightarrow> nat \<Rightarrow> (nat \<times> 'd Vector3d) option \<Rightarrow> bool" where
  "candidate_rejected ar s edge found =
    (case found of
       None \<Rightarrow> True
     | Some (candidate, center) \<Rightarrow>
         vtype (vertices s ! candidate) = VInner \<or>
         \<not> IsCompatible ar (vertices s) candidate (source (edge_heap s ! edge))
             (target (edge_heap s ! edge)) \<or>
         is_not_front s (GetLinkingEdge s candidate (source (edge_heap s ! edge))) \<or>
         is_not_front s (GetLinkingEdge s candidate (target (edge_heap s ! edge))))"

text \<open>The revisit of a border edge at a radius succeeds: the ball of that radius on the
  triangle of the edge exists, and the radius search around its center finds the three corners
  of the triangle only.\<close>

definition revisit_succeeds :: "'d arithmetic \<Rightarrow> 'd BallPivoting \<Rightarrow> 'd \<Rightarrow> nat \<Rightarrow> bool" where
  "revisit_succeeds ar s radius edge =
    (case triangle0 (edge_heap s ! edge) of
       None \<Rightarrow> False
     | Some t \<Rightarrow>
        (case ComputeBallCenter ar (vertices s) (vert0 (triangle_heap s ! t))
                (vert1 (triangle_heap s ! t)) (vert2 (triangle_heap s ! t)) radius of
           None \<Rightarrow> False
         | Some center \<Rightarrow>
             list_all (\<lambda>idx. idx = vert0 (triangle_heap s ! t) \<or>
                              idx = vert1 (triangle_heap s ! t) \<or>
                              idx = vert2 (triangle_heap s ! t))
               (SearchRadius s center radius)))"

subsection \<open>Concrete inputs\<close>

text \<open>A right triangle with sides 3, 4 and 5 in the plane \<open>z = 0\<close>, all normals up.\<close>

definition triangle345 :: "real BallPivotingVertex list" where
  "triangle345 =
    [\<lparr>point = Vector3d 0 0 0, normal = Vector3d 0 0 1, edges = [], vtype = Orphan\<rparr>,
     \<lparr>point = Vector3d 3 0 0, normal = Vector3d 0 0 1, edges = [], vtype = Orphan\<rparr>,
     \<lparr>point = Vector3d 0 4 0, normal = Vector3d 0 0 1, edges = [], vtype = Orphan\<rparr>]"

text \<open>A triangle in the plane \<open>z = 0\<close> whose first vertex has a unit normal that points very
  slightly downwards (its dot with the upward face normal is about \<open>- 2 / 10 ^ 17\<close>), the
  other two normals pointing up.\<close>

definition tilted_triangle :: "real BallPivotingVertex list" where
  "tilted_triangle =
    [\<lparr>point = Vector3d 0 0 0,
      normal = Vector3d ((10 ^ 34 - 1) / (10 ^ 34 + 1)) 0 (- (2 * 10 ^ 17) / (10 ^ 34 + 1)),
      edges = [], vtype = Orphan\<rparr>,
     \<lparr>point = Vector3d 1 0 0, normal = Vector3d 0 0 1, edges = [], vtype = Orphan\<rparr>,
     \<lparr>point = Vector3d 0 1 0, normal = Vector3d 0 0 1, edges = [], vtype = Orphan\<rparr>]"

text \<open>A vertex whose only incident edge is a border edge.\<close>

definition border_edge_only :: "BallPivotingEdge list" where
  "border_edge_only =
    [\<lparr>source = 0, target = 1, triangle0 = Some 0, triangle1 = None, etype = Border\<rparr>]"

definition border_vertex :: "real BallPivotingVertex" where
  "border_vertex = \<lparr>point = Vector3d 0 0 0, normal = Vector3d 0 0 1, edges = [0], vtype = Orphan\<rparr>"

text \<open>Four points in the plane \<open>z = 0\<close>, two right triangles with sides 3, 4 and 5 on both
  sides of the segment between the first two points, all normals up.\<close>

definition parallelogram :: "real PointCloud" where
  "parallelogram =
    \<lparr>points = [Vector3d 0 0 0, Vector3d 3 0 0, Vector3d 0 4 0, Vector3d 3 (- 4) 0],
     normals = [Vector3d 0 0 1, Vector3d 0 0 1, Vector3d 0 0 1, Vector3d 0 0 1],
     HasNormals = True\<rparr>"

text \<open>A radius search by enumeration of the points.\<close>

definition radius_search :: "real Vector3d list \<Rightarrow> real Vector3d \<Rightarrow> real \<Rightarrow> nat list" where
  "radius_search ps q r = filter (\<lambda>i. squaredNorm (ps ! i - q) \<le> r * r) [0..<length ps]"

text \<open>An intersection test that finds no four points coplanar.\<close>

definition general_position :: "real IntersectionTest" where
  "general_position =
    \<lparr>PointsCoplanar = (\<lambda>p0 p1 p2 p3. False),
     LineSegmentsMinimumDistance = (\<lambda>p0 p1 q0 q1. 1)\<rparr>"

text \<open>The engine on these points, and its states after the seed on the first three points
  with radius \<open>13 / 2\<close>, after the expansion of edge 0, after the expansion of edge 3,
  after the revisit of the border edge 3 with the same radius (\<open>reactivated\<close>), and at the end
  of the run with that radius (\<open>finished\<close>).\<close>

definition new_engine :: "real BallPivoting" where
  "new_engine = BallPivoting_new (radius_search (points parallelogram)) parallelogram"

definition seeded :: "real BallPivoting" where
  "seeded =
    \<lparr>has_normals = True,
     SearchRadius = radius_search (points parallelogram),
     edge_front = [0, 1, 2],
     border_edges = [],
     vertices =
       [\<lparr>point = Vector3d 0 0 0, normal = Vector3d 0 0 1, edges = [2, 0], vtype = VFront\<rparr>,
        \<lparr>point = Vector3d 3 0 0, normal = Vector3d 0 0 1, edges = [1, 0], vtype = VFront\<rparr>,
        \<lparr>point = Vector3d 0 4 0, normal = Vector3d 0 0 1, edges = [2, 1], vtype = VFront\<rparr>,
        \<lparr>point = Vector3d 3 (- 4) 0, normal = Vector3d 0 0 1, edges = [], vtype = Orphan\<rparr>],
     edge_heap =
       [\<lparr>source = 0, target = 1, triangle0 = Some 0, triangle1 = None, etype = Front\<rparr>,
        \<lparr>source = 1, target = 2, triangle0 = Some 0, triangle1 = None, etype = Front\<rparr>,
        \<lparr>source = 2, target = 0, triangle0 = Some 0, triangle1 = None, etype = Front\<rparr>],
     triangle_heap = [\<lparr>vert0 = 0, vert1 = 1, vert2 = 2, ball_center = Vector3d (3 / 2) 2 6\<rparr>],
     mesh_triangles = [(0, 1, 2)],
     mesh_triangle_normals = [Vector3d 0 0 1]\<rparr>"

definition expanded :: "real BallPivoting" where
  "expanded =
    \<lparr>has_normals = True,
     SearchRadius = radius_search (points parallelogram),
     edge_front = [3, 4, 1, 2],
     border_edges = [],
     vertices =
       [\<lparr>point = Vector3d 0 0 0, normal = Vector3d 0 0 1, edges = [4, 2, 0], vtype = VFront\<rparr>,
        \<lparr>point = Vector3d 3 0 0, normal = Vector3d 0 0 1, edges = [3, 1, 0], vtype = VFront\<rparr>,
        \<lparr>point = Vector3d 0 4 0, normal = Vector3d 0 0 1, edges = [2, 1], vtype = VFront\<rparr>,
        \<lparr>point = Vector3d 3 (- 4) 0, normal = Vector3d 0 0 1, edges = [4, 3], vtype = VFront\<rparr>],
     edge_heap =
       [\<lparr>source = 0, target = 1, triangle0 = Some 0, triangle1 = Some 1, etype = Inner\<rparr>,
        \<lparr>source = 1, target = 2, triangle0 = Some 0, triangle1 = None, etype = Front\<rparr>,
        \<lparr>source = 2, target = 0, triangle0 = Some 0, triangle1 = None, etype = Front\<rparr>,
        \<lparr>source = 3, target = 1, triangle0 = Some 1, triangle1 = None, etype = Front\<rparr>,
        \<lparr>source = 0, target = 3, triangle0 = Some 1, triangle1 = None, etype = Front\<rparr>],
     triangle_heap =
       [\<lparr>vert0 = 0, vert1 = 1, vert2 = 2, ball_center = Vector3d (3 / 2) 2 6\<rparr>,
        \<lparr>vert0 = 0, vert1 = 1, vert2 = 3, ball_center = Vector3d (3 / 2) (- 2) 6\<rparr>],
     mesh_triangles = [(0, 1, 2), (0, 3, 1)],
     mesh_triangle_normals = [Vector3d 0 0 1, Vector3d 0 0 (- 1)]\<rparr>"

definition bordered :: "real BallPivoting" where
  "bordered =
    \<lparr>has_normals = True,
     SearchRadius = radius_search (points parallelogram),
     edge_front = [4, 1, 2],
     border_edges = [3],
     vertices =
       [\<lparr>point = Vector3d 0 0 0, normal = Vector3d 0 0 1, edges = [4, 2, 0], vtype = VFront\<rparr>,
        \<lparr>point = Vector3d 3 0 0, normal = Vector3d 0 0 1, edges = [3, 1, 0], vtype = VFront\<rparr>,
        \<lparr>point = Vector3d 0 4 0, normal = Vector3d 0 0 1, edges = [2, 1], vtype = VFront\<rparr>,
        \<lparr>point = Vector3d 3 (- 4) 0, normal = Vector3d 0 0 1, edges = [4, 3], vtype = VFront\<rparr>],
     edge_heap =
       [\<lparr>source = 0, target = 1, triangle0 = Some 0, triangle1 = Some 1, etype = Inner\<rparr>,
        \<lparr>source = 1, target = 2, triangle0 = Some 0, triangle1 = None, etype = Front\<rparr>,
        \<lparr>source = 2, target = 0, triangle0 = Some 0, triangle1 = None, etype = Front\<rparr>,
        \<lparr>source = 3, target = 1, triangle0 = Some 1, triangle1 = None, etype = Border\<rparr>,
        \<lparr>source = 0, target = 3, triangle0 = Some 1, triangle1 = None, etype = Front\<rparr>],
     triangle_heap =
       [\<lparr>vert0 = 0, vert1 = 1, vert2 = 2, ball_center = Vector3d (3 / 2) 2 6\<rparr>,
        \<lparr>vert0 = 0, vert1 = 1, vert2 = 3, ball_center = Vector3d (3 / 2) (- 2) 6\<rparr>],
     mesh_triangles = [(0, 1, 2), (0, 3, 1)],
     mesh_triangle_normals = [Vector3d 0 0 1, Vector3d 0 0 (- 1)]\<rparr>"

definition reactivated :: "real BallPivoting" where
  "reactivated =
    \<lparr>has_normals = True,
     SearchRadius = radius_search (points parallelogram),
     edge_front = [4, 1, 2, 3],
     border_edges = [],
     vertices =
       [\<lparr>point = Vector3d 0 0 0, normal = Vector3d 0 0 1, edges = [4, 2, 0], vtype = VFront\<rparr>,
        \<lparr>point = Vector3d 3 0 0, normal = Vector3d 0 0 1, edges = [3, 1, 0], vtype = VFront\<rparr>,
        \<lparr>point = Vector3d 0 4 0, normal = Vector3d 0 0 1, edges = [2, 1], vtype = VFront\<rparr>,
        \<lparr>point = Vector3d 3 (- 4) 0, normal = Vector3d 0 0 1, edges = [4, 3], vtype = VFront\<rparr>],
     edge_heap =
       [\<lparr>source = 0, target = 1, triangle0 = Some 0, triangle1 = Some 1, etype = Inner\<rparr>,
        \<lparr>source = 1, target = 2, triangle0 = Some 0, triangle1 = None, etype = Front\<rparr>,
        \<lparr>source = 2, target = 0, triangle0 = Some 0, triangle1 = None, etype = Front\<rparr>,
        \<lparr>source = 3, target = 1, triangle0 = Some 1, triangle1 = None, etype = Front\<rparr>,
        \<lparr>source = 0, target = 3, triangle0 = Some 1, triangle1 = None, etype = Front\<rparr>],
     triangle_heap =
       [\<lparr>vert0 = 0, vert1 = 1, vert2 = 2, ball_center = Vector3d (3 / 2) 2 6\<rparr>,
        \<lparr>vert0 = 0, vert1 = 1, vert2 = 3, ball_center = Vector3d (3 / 2) (- 2) 6\<rparr>],
     mesh_triangles = [(0, 1, 2), (0, 3, 1)],
     mesh_triangle_normals = [Vector3d 0 0 1, Vector3d 0 0 (- 1)]\<rparr>"

definition finished :: "real BallPivoting" where
  "finished =
    \<lparr>has_normals = True,
     SearchRadius = radius_search (points parallelogram),
     edge_front = [],
     border_edges = [3, 4, 1, 2],
     vertices =
       [\<lparr>point = Vector3d 0 0 0, normal = Vector3d 0 0 1, edges = [4, 2, 0], vtype = VFront\<rparr>,
        \<lparr>point = Vector3d 3 0 0, normal = Vector3d 0 0 1, edges = [3, 1, 0], vtype = VFront\<rparr>,
        \<lparr>point = Vector3d 0 4 0, normal = Vector3d 0 0 1, edges = [2, 1], vtype = VFront\<rparr>,
        \<lparr>point = Vector3d 3 (- 4) 0, normal = Vector3d 0 0 1, edges = [4, 3], vtype = VFront\<rparr>],
     edge_heap =
       [\<lparr>source = 0, target = 1, triangle0 = Some 0, triangle1 = Some 1, etype = Inner\<rparr>,
        \<lparr>source = 1, target = 2, triangle0 = Some 0, triangle1 = None, etype = Border\<rparr>,
        \<lparr>source = 2, target = 0, triangle0 = Some 0, triangle1 = None, etype = Border\<rparr>,
        \<lparr>source = 3, target = 1, triangle0 = Some 1, triangle1 = None, etype = Border\<rparr>,
        \<lparr>source = 0, target = 3, triangle0 = Some 1, triangle1 = None, etype = Border\<rparr>],
     triangle_heap =
       [\<lparr>vert0 = 0, vert1 = 1, vert2 = 2, ball_center = Vector3d (3 / 2) 2 6\<rparr>,
        \<lparr>vert0 = 0, vert1 = 1, vert2 = 3, ball_center = Vector3d (3 / 2) (- 2) 6\<rparr>],
     mesh_triangles = [(0, 1, 2), (0, 3, 1)],
     mesh_triangle_normals = [Vector3d 0 0 1, Vector3d 0 0 (- 1)]\<rparr>"

definition on_parallelogram :: "real BallPivotingVertex list \<Rightarrow> bool" where
  "on_parallelogram vs \<longleftrightarrow>
     map point vs = points parallelogram \<and> map normal vs = normals parallelogram"


subsection \<open>The conditions of the specification of the mesh and of the queue\<close>

text \<open>The unordered triple of the vertex indices of a mesh triangle.\<close>

definition unordered_triple :: "nat \<times> nat \<times> nat \<Rightarrow> nat set" where
  "unordered_triple t = {fst t, fst (snd t), snd (snd t)}"


subsection \<open>The invariants of the topology store\<close>

definition endpoints :: "BallPivotingEdge \<Rightarrow> nat set" where
  "endpoints e = {source e, target e}"

definition slots :: "BallPivotingEdge \<Rightarrow> nat set" where
  "slots e = set_option (triangle0 e) \<union> set_option (triangle1 e)"

definition corners :: "'d BallPivotingTriangle \<Rightarrow> nat set" where
  "corners t = {vert0 t, vert1 t, vert2 t}"

text \<open>Every edge joins two different vertices and is in the edge set of both.\<close>

definition edges_ok :: "'d BallPivoting \<Rightarrow> bool" where
  "edges_ok s \<longleftrightarrow>
    (\<forall>e < length (edge_heap s).
       source (edge_heap s ! e) < length (vertices s) \<and>
       target (edge_heap s ! e) < length (vertices s) \<and>
       source (edge_heap s ! e) \<noteq> target (edge_heap s ! e) \<and>
       e \<in> set (edges (vertices s ! source (edge_heap s ! e))) \<and>
       e \<in> set (edges (vertices s ! target (edge_heap s ! e))))"

text \<open>The edge set of a vertex holds edges of the store that end at the vertex.\<close>

definition vertices_ok :: "'d BallPivoting \<Rightarrow> bool" where
  "vertices_ok s \<longleftrightarrow>
    (\<forall>v < length (vertices s). \<forall>e \<in> set (edges (vertices s ! v)).
       e < length (edge_heap s) \<and> v \<in> endpoints (edge_heap s ! e))"

text \<open>At most one edge for an unordered pair of vertices.\<close>

definition unique_edges :: "'d BallPivoting \<Rightarrow> bool" where
  "unique_edges s \<longleftrightarrow>
    (\<forall>e < length (edge_heap s). \<forall>e' < length (edge_heap s).
       endpoints (edge_heap s ! e) = endpoints (edge_heap s ! e') \<longrightarrow> e = e')"

text \<open>The first slot of an edge is filled, the two slots differ, and a triangle in a slot is
  a triangle of the store with the two end points of the edge among its corners.\<close>

definition slots_ok :: "'d BallPivoting \<Rightarrow> bool" where
  "slots_ok s \<longleftrightarrow>
    (\<forall>e < length (edge_heap s).
       triangle0 (edge_heap s ! e) \<noteq> None \<and>
       triangle0 (edge_heap s ! e) \<noteq> triangle1 (edge_heap s ! e) \<and>
       (\<forall>t \<in> slots (edge_heap s ! e).
          t < length (triangle_heap s) \<and>
          endpoints (edge_heap s ! e) \<subseteq> corners (triangle_heap s ! t)))"

text \<open>An edge is Inner iff its second slot is filled, and Border iff it is in the border
  list.\<close>

definition types_ok :: "'d BallPivoting \<Rightarrow> bool" where
  "types_ok s \<longleftrightarrow>
    (\<forall>e < length (edge_heap s).
       (etype (edge_heap s ! e) = Inner \<longleftrightarrow> triangle1 (edge_heap s ! e) \<noteq> None) \<and>
       (etype (edge_heap s ! e) = Border \<longleftrightarrow> e \<in> set (border_edges s)))"

text \<open>Triangle \<open>t\<close> is registered on an edge between \<open>a\<close> and \<open>b\<close>.\<close>

definition linked :: "'d BallPivoting \<Rightarrow> nat \<Rightarrow> nat \<Rightarrow> nat \<Rightarrow> bool" where
  "linked s a b t \<longleftrightarrow>
    (\<exists>e < length (edge_heap s).
       endpoints (edge_heap s ! e) = {a, b} \<and> t \<in> slots (edge_heap s ! e))"

text \<open>A triangle of the store: three different vertices, an edge with the triangle in a slot
  for each pair of them, and the mesh triangle is the triangle in one of its two
  orientations.\<close>

definition triangle_ok :: "'d BallPivoting \<Rightarrow> nat \<Rightarrow> bool" where
  "triangle_ok s t \<longleftrightarrow>
    corners (triangle_heap s ! t) \<subseteq> {..<length (vertices s)} \<and>
    card (corners (triangle_heap s ! t)) = 3 \<and>
    (\<forall>a \<in> corners (triangle_heap s ! t). \<forall>b \<in> corners (triangle_heap s ! t).
       a \<noteq> b \<longrightarrow> linked s a b t) \<and>
    (mesh_triangles s ! t =
       (vert0 (triangle_heap s ! t), vert1 (triangle_heap s ! t), vert2 (triangle_heap s ! t)) \<or>
     mesh_triangles s ! t =
       (vert0 (triangle_heap s ! t), vert2 (triangle_heap s ! t), vert1 (triangle_heap s ! t)))"

text \<open>The triangles of the store that have been emitted to the mesh (the first
  \<open>length (mesh_triangles s)\<close> ones) are well formed, and no two of them have the same
  corners.\<close>

definition triangles_ok :: "'d BallPivoting \<Rightarrow> bool" where
  "triangles_ok s \<longleftrightarrow>
    length (mesh_triangles s) \<le> length (triangle_heap s) \<and>
    (\<forall>t < length (mesh_triangles s). triangle_ok s t) \<and>
    (\<forall>t < length (mesh_triangles s). \<forall>t' < length (mesh_triangles s).
       corners (triangle_heap s ! t) = corners (triangle_heap s ! t') \<longrightarrow> t = t')"

text \<open>The queues hold edges of the store, and the border list holds no edge twice.\<close>

definition queues_ok :: "'d BallPivoting \<Rightarrow> bool" where
  "queues_ok s \<longleftrightarrow>
    set (edge_front s) \<subseteq> {..<length (edge_heap s)} \<and>
    set (border_edges s) \<subseteq> {..<length (edge_heap s)} \<and>
    distinct (border_edges s)"

text \<open>The assumption on the spatial index: a radius search returns indices of input points.\<close>

definition index_ok :: "'d BallPivoting \<Rightarrow> bool" where
  "index_ok s \<longleftrightarrow> (\<forall>q r. set (SearchRadius s q r) \<subseteq> {..<length (vertices s)})"

definition store_ok :: "'d BallPivoting \<Rightarrow> bool" where
  "store_ok s \<longleftrightarrow>
    edges_ok s \<and> vertices_ok s \<and> unique_edges s \<and> slots_ok s \<and> types_ok s \<and>
    triangles_ok s \<and> queues_ok s \<and> index_ok s"

text \<open>A vertex classified Orphan has no incident edge.\<close>

definition orphans_ok :: "'d BallPivoting \<Rightarrow> bool" where
  "orphans_ok s \<longleftrightarrow>
    (\<forall>v < length (vertices s). vtype (vertices s ! v) = Orphan \<longrightarrow> edges (vertices s ! v) = [])"

text \<open>The invariant between two operations of the engine: every triangle of the store has
  been emitted.\<close>

definition topology_ok :: "'d BallPivoting \<Rightarrow> bool" where
  "topology_ok s \<longleftrightarrow>
    store_ok s \<and> orphans_ok s \<and> length (mesh_triangles s) = length (triangle_heap s)"

subsection \<open>Reachable states\<close>

text \<open>
  The operations of the engine between which its state is observed: a call of
  \<^verbatim>\<open>TrySeed\<close>, one iteration of the loop of \<^verbatim>\<open>ExpandTriangulation\<close>, the scan of the
  border list at a radius change. The radii, the seed vertices and the answers of the spatial
  index and of the intersection tests are arbitrary.
\<close>

inductive engine_step ::
  "'d arithmetic \<Rightarrow> 'd IntersectionTest \<Rightarrow> 'd BallPivoting \<Rightarrow> 'd BallPivoting \<Rightarrow> bool"
  for ar it where
  engine_TrySeed:
    "v < length (vertices s) \<Longrightarrow> TrySeed ar v radius s = Inr (found, s') \<Longrightarrow>
     engine_step ar it s s'"
| engine_Expand:
    "edge_front s \<noteq> [] \<Longrightarrow> ExpandTriangulation_step ar it radius s = Inr s' \<Longrightarrow>
     engine_step ar it s s'"
| engine_border:
    "update_border_edges ar radius (border_edges s) (s\<lparr>border_edges := []\<rparr>) = Inr s' \<Longrightarrow>
     engine_step ar it s s'"

text \<open>
  The one property of the arithmetic that the invariants of the store need: there is no ball
  on a triangle with the same vertex twice. In the arithmetic of the reals the sum of the
  weights of such a triangle is zero, below the threshold. With IEEE 754 doubles, if all the
  quantities of \<^verbatim>\<open>ComputeBallCenter\<close> are finite then \<^verbatim>\<open>a\<close> is zero and \<^verbatim>\<open>b\<close> and \<^verbatim>\<open>c\<close>
  are the same number (a difference and its opposite have the same squares), so the three
  weights and their sum are zero; if one overflows or is not a number, then
  \<^verbatim>\<open>circ_radius2\<close> is not a number (it is a multiple of \<^verbatim>\<open>a\<close>, which is zero or not a
  number, by an infinity or not a number) and the test \<^verbatim>\<open>height >= 0.0\<close> fails.
\<close>

definition degenerate_fails :: "'d arithmetic \<Rightarrow> bool" where
  "degenerate_fails ar \<longleftrightarrow> (\<forall>vs i j radius. ComputeBallCenter ar vs i j j radius = None)"

text \<open>The states of the engine between two operations, from a new engine on, with a spatial
  index that returns indices of input points.\<close>

inductive reachable :: "'d arithmetic \<Rightarrow> 'd IntersectionTest \<Rightarrow> 'd BallPivoting \<Rightarrow> bool"
  for ar it where
  reachable_new:
    "degenerate_fails ar \<Longrightarrow> (\<forall>q r. set (kdtree q r) \<subseteq> {..<length (points pcd)}) \<Longrightarrow>
     reachable ar it (BallPivoting_new kdtree pcd)"
| reachable_step:
    "reachable ar it s \<Longrightarrow> engine_step ar it s s' \<Longrightarrow> reachable ar it s'"

subsection \<open>The two effects of registering a triangle on an edge\<close>

text \<open>Registering triangle \<open>k\<close> in the second slot of the edge \<open>e\<close>.\<close>

definition fill_second :: "nat \<Rightarrow> nat \<Rightarrow> 'd BallPivoting \<Rightarrow> 'd BallPivoting" where
  "fill_second e k s =
    s\<lparr>edge_heap := (edge_heap s)[e := (edge_heap s ! e)\<lparr>triangle1 := Some k, etype := Inner\<rparr>]\<rparr>"

text \<open>Allocating the edge between \<open>a\<close> and \<open>b\<close> with triangle \<open>k\<close> in its first slot; the
  orientation test may have swapped its end points.\<close>

definition add_edge :: "nat \<Rightarrow> nat \<Rightarrow> nat \<Rightarrow> bool \<Rightarrow> 'd BallPivoting \<Rightarrow> 'd BallPivoting" where
  "add_edge a b k swapped s =
    s\<lparr>edge_heap := edge_heap s @
         [\<lparr>source = (if swapped then b else a), target = (if swapped then a else b),
           triangle0 = Some k, triangle1 = None, etype = Front\<rparr>],
      vertices := insert_edge b (length (edge_heap s))
                    (insert_edge a (length (edge_heap s)) (vertices s))\<rparr>"

text \<open>What one side of \<^verbatim>\<open>CreateTriangle\<close> leaves unchanged, for the side between \<open>a\<close> and
  \<open>b\<close> of triangle \<open>k\<close>.\<close>

definition side_frame :: "nat \<Rightarrow> nat \<Rightarrow> nat \<Rightarrow> 'd BallPivoting \<Rightarrow> 'd BallPivoting \<Rightarrow> bool" where
  "side_frame k a b s s' \<longleftrightarrow>
    triangle_heap s' = triangle_heap s \<and>
    edge_front s' = edge_front s \<and>
    border_edges s' = border_edges s \<and>
    mesh_triangles s' = mesh_triangles s \<and>
    mesh_triangle_normals s' = mesh_triangle_normals s \<and>
    SearchRadius s' = SearchRadius s \<and>
    has_normals s' = has_normals s \<and>
    length (vertices s') = length (vertices s) \<and>
    length (edge_heap s) \<le> length (edge_heap s') \<and>
    (\<forall>v < length (vertices s).
       vtype (vertices s' ! v) = vtype (vertices s ! v) \<and>
       point (vertices s' ! v) = point (vertices s ! v) \<and>
       normal (vertices s' ! v) = normal (vertices s ! v) \<and>
       (v \<noteq> a \<and> v \<noteq> b \<longrightarrow> edges (vertices s' ! v) = edges (vertices s ! v)) \<and>
       (v = a \<or> v = b \<longrightarrow> edges (vertices s' ! v) \<noteq> [])) \<and>
    (\<forall>e < length (edge_heap s).
       (endpoints (edge_heap s ! e) \<noteq> {a, b} \<longrightarrow> edge_heap s' ! e = edge_heap s ! e) \<and>
       endpoints (edge_heap s' ! e) = endpoints (edge_heap s ! e) \<and>
       slots (edge_heap s ! e) \<subseteq> slots (edge_heap s' ! e)) \<and>
    (\<forall>e < length (edge_heap s').
       length (edge_heap s) \<le> e \<longrightarrow> endpoints (edge_heap s' ! e) = {a, b}) \<and>
    (\<exists>e < length (edge_heap s').
       endpoints (edge_heap s' ! e) = {a, b} \<and> k \<in> slots (edge_heap s' ! e))"

text \<open>The same for several sides: \<open>P\<close> is the set of the sides done, each an unordered
  pair of vertices.\<close>

definition same_rest :: "'d BallPivoting \<Rightarrow> 'd BallPivoting \<Rightarrow> bool" where
  "same_rest s s' \<longleftrightarrow>
    triangle_heap s' = triangle_heap s \<and>
    edge_front s' = edge_front s \<and>
    border_edges s' = border_edges s \<and>
    mesh_triangles s' = mesh_triangles s \<and>
    mesh_triangle_normals s' = mesh_triangle_normals s \<and>
    SearchRadius s' = SearchRadius s \<and>
    has_normals s' = has_normals s \<and>
    length (vertices s') = length (vertices s) \<and>
    length (edge_heap s) \<le> length (edge_heap s')"

definition frame_vertices :: "nat set set \<Rightarrow> 'd BallPivoting \<Rightarrow> 'd BallPivoting \<Rightarrow> bool" where
  "frame_vertices P s s' \<longleftrightarrow>
    (\<forall>v < length (vertices s).
       vtype (vertices s' ! v) = vtype (vertices s ! v) \<and>
       point (vertices s' ! v) = point (vertices s ! v) \<and>
       normal (vertices s' ! v) = normal (vertices s ! v) \<and>
       (v \<notin> \<Union>P \<longrightarrow> edges (vertices s' ! v) = edges (vertices s ! v)) \<and>
       (v \<in> \<Union>P \<longrightarrow> edges (vertices s' ! v) \<noteq> []))"

definition frame_edges :: "nat set set \<Rightarrow> 'd BallPivoting \<Rightarrow> 'd BallPivoting \<Rightarrow> bool" where
  "frame_edges P s s' \<longleftrightarrow>
    (\<forall>e < length (edge_heap s).
       (endpoints (edge_heap s ! e) \<notin> P \<longrightarrow> edge_heap s' ! e = edge_heap s ! e) \<and>
       endpoints (edge_heap s' ! e) = endpoints (edge_heap s ! e) \<and>
       slots (edge_heap s ! e) \<subseteq> slots (edge_heap s' ! e))"

definition frame_new :: "nat set set \<Rightarrow> 'd BallPivoting \<Rightarrow> 'd BallPivoting \<Rightarrow> bool" where
  "frame_new P s s' \<longleftrightarrow>
    (\<forall>e < length (edge_heap s').
       length (edge_heap s) \<le> e \<longrightarrow> endpoints (edge_heap s' ! e) \<in> P)"

definition frame_linked :: "nat \<Rightarrow> nat set set \<Rightarrow> 'd BallPivoting \<Rightarrow> bool" where
  "frame_linked k P s' \<longleftrightarrow>
    (\<forall>p \<in> P. \<exists>e < length (edge_heap s').
       endpoints (edge_heap s' ! e) = p \<and> k \<in> slots (edge_heap s' ! e))"

definition sides_frame :: "nat \<Rightarrow> nat set set \<Rightarrow> 'd BallPivoting \<Rightarrow> 'd BallPivoting \<Rightarrow> bool" where
  "sides_frame k P s s' \<longleftrightarrow>
    same_rest s s' \<and> frame_vertices P s s' \<and> frame_edges P s s' \<and> frame_new P s s' \<and>
    frame_linked k P s'"

text \<open>What \<^verbatim>\<open>CreateTriangle\<close> does to the engine beyond the store invariants.\<close>

definition pushed :: "nat \<Rightarrow> nat \<Rightarrow> nat \<Rightarrow> 'd Vector3d \<Rightarrow> 'd BallPivoting \<Rightarrow> 'd BallPivoting \<Rightarrow> bool" where
  "pushed v0 v1 v2 center s s' \<longleftrightarrow>
    triangle_heap s' = triangle_heap s @
      [\<lparr>vert0 = v0, vert1 = v1, vert2 = v2, ball_center = center\<rparr>] \<and>
    (mesh_triangles s' = mesh_triangles s @ [(v0, v1, v2)] \<or>
     mesh_triangles s' = mesh_triangles s @ [(v0, v2, v1)]) \<and>
    edge_front s' = edge_front s \<and>
    border_edges s' = border_edges s \<and>
    SearchRadius s' = SearchRadius s \<and>
    has_normals s' = has_normals s \<and>
    length (vertices s') = length (vertices s) \<and>
    length (edge_heap s) \<le> length (edge_heap s')"

definition others_same :: "nat set \<Rightarrow> 'd BallPivoting \<Rightarrow> 'd BallPivoting \<Rightarrow> bool" where
  "others_same V s s' \<longleftrightarrow>
    (\<forall>v < length (vertices s).
       point (vertices s' ! v) = point (vertices s ! v) \<and>
       normal (vertices s' ! v) = normal (vertices s ! v) \<and>
       (v \<notin> V \<longrightarrow>
          edges (vertices s' ! v) = edges (vertices s ! v) \<and>
          vtype (vertices s' ! v) = vtype (vertices s ! v)))"

definition triangle_frame ::
  "nat \<Rightarrow> nat \<Rightarrow> nat \<Rightarrow> 'd Vector3d \<Rightarrow> 'd BallPivoting \<Rightarrow> 'd BallPivoting \<Rightarrow> bool" where
  "triangle_frame v0 v1 v2 center s s' \<longleftrightarrow>
    pushed v0 v1 v2 center s s' \<and> others_same {v0, v1, v2} s s' \<and>
    frame_edges {{v0, v1}, {v1, v2}, {v2, v0}} s s'"

text \<open>Changing the classification of an edge only.\<close>

definition retype :: "nat \<Rightarrow> EdgeType \<Rightarrow> 'd BallPivoting \<Rightarrow> 'd BallPivoting" where
  "retype e ty s = s\<lparr>edge_heap := (edge_heap s)[e := (edge_heap s ! e)\<lparr>etype := ty\<rparr>]\<rparr>"

text \<open>The invariants but those of the classification and of the queues.\<close>

definition rest_ok :: "'d BallPivoting \<Rightarrow> bool" where
  "rest_ok s \<longleftrightarrow>
    edges_ok s \<and> vertices_ok s \<and> unique_edges s \<and> slots_ok s \<and> triangles_ok s \<and>
    index_ok s \<and> orphans_ok s \<and> length (mesh_triangles s) = length (triangle_heap s)"

text \<open>The measure that decreases with every step of the expansion: the number of triangles
  that can still be created, then the length of the front queue.\<close>

definition expansion_measure :: "'d BallPivoting \<Rightarrow> nat \<times> nat" where
  "expansion_measure s =
    (2 ^ length (vertices s) - length (triangle_heap s), length (edge_front s))"

text \<open>The slots of the edges are only ever filled: the first slot of an edge stays, and a
  triangle in a slot stays in a slot.\<close>

definition slots_kept :: "'d BallPivoting \<Rightarrow> 'd BallPivoting \<Rightarrow> bool" where
  "slots_kept s s' \<longleftrightarrow>
    length (edge_heap s) \<le> length (edge_heap s') \<and>
    (\<forall>e < length (edge_heap s).
       triangle0 (edge_heap s' ! e) = triangle0 (edge_heap s ! e) \<and>
       slots (edge_heap s ! e) \<subseteq> slots (edge_heap s' ! e))"

section \<open>Exact arithmetic\<close>

text \<open>In the arithmetic of the reals the operations of the source are those of the algebra of
  vectors, and the functions with arithmetic read as their formulas.\<close>

lemma exact_simps [simp]:
  "lit exact x = x"
  "fadd exact x y = x + y"
  "fsub exact x y = x - y"
  "fmul exact x y = x * y"
  "fdiv exact x y = x / y"
  "fsum3 exact x y z = x + y + z"
  "fsqrt exact x = sqrt x"
  "facos exact x = arccos x"
  "flt exact x y \<longleftrightarrow> x < y"
  "fle exact x y \<longleftrightarrow> x \<le> y"
  by (simp_all add: exact_def)

lemma vector_exact [simp]:
  "fplus exact u v = u + v"
  "fminus exact u v = u - v"
  "fscale exact k v = scale k v"
  "ftimes exact v k = scale k v"
  "fover exact v k = divide_by v k"
  "fdot exact u v = dot u v"
  "fcross exact u v = cross u v"
  "fsquaredNorm exact v = squaredNorm v"
  "fnorm exact v = vnorm v"
  by (simp_all add: fplus_def fminus_def fscale_def ftimes_def fover_def fdot_def fcross_def
      fsquaredNorm_def fnorm_def plus_Vector3d_def minus_Vector3d_def scale_def divide_by_def
      dot_def cross_def squaredNorm_def vnorm_def mult.commute)

lemma std_exact [simp]:
  "std_min exact a b = min a b"
  "std_max exact a b = max a b"
  by (auto simp: std_min_def std_max_def)

lemma ComputeBallCenter_exact:
  "ComputeBallCenter exact vs vidx1 vidx2 vidx3 radius =
    (let v1 = point (vs ! vidx1);
         v2 = point (vs ! vidx2);
         v3 = point (vs ! vidx3);
         c = squaredNorm (v2 - v1);
         b = squaredNorm (v1 - v3);
         a = squaredNorm (v3 - v2);
         alpha = a * (b + c - a);
         beta = b * (a + c - b);
         gamma = c * (a + b - c);
         abg = alpha + beta + gamma
     in if abg < eps16 then None
        else
          let alpha1 = alpha / abg;
              beta1 = beta / abg;
              gamma1 = gamma / abg;
              circ_center = scale alpha1 v1 + scale beta1 v2 + scale gamma1 v3;
              sa = sqrt a;
              sb = sqrt b;
              sc = sqrt c;
              circ_radius2 = (a * b * c) /
                 ((sa + sb + sc) * (sb + sc - sa) * (sc + sa - sb) * (sa + sb - sc));
              height = radius * radius - circ_radius2
          in if height \<ge> 0 then
               let tr_norm0 = cross (v2 - v1) (v3 - v1);
                   tr_norm1 = divide_by tr_norm0 (vnorm tr_norm0);
                   pt_norm0 = normal (vs ! vidx1) + normal (vs ! vidx2) + normal (vs ! vidx3);
                   pt_norm = divide_by pt_norm0 (vnorm pt_norm0);
                   tr_norm = (if dot tr_norm1 pt_norm < 0 then scale (- 1) tr_norm1
                              else tr_norm1)
               in Some (circ_center + scale (sqrt height) tr_norm)
             else None)"
  unfolding ComputeBallCenter_def exact_simps vector_exact std_exact by (rule refl)

lemma ComputeFaceNormal_exact:
  "ComputeFaceNormal exact v0 v1 v2 =
    (let normal0 = cross (v1 - v0) (v2 - v0);
         norm = vnorm normal0
     in if norm > 0 then divide_by normal0 norm else normal0)"
  unfolding ComputeFaceNormal_def exact_simps vector_exact std_exact by (rule refl)

lemma IsCompatible_exact:
  "IsCompatible exact vs v0 v1 v2 =
    (let normal0 = ComputeFaceNormal exact (point (vs ! v0)) (point (vs ! v1)) (point (vs ! v2));
         normal1 = (if dot normal0 (normal (vs ! v0)) < - eps16 then scale (- 1) normal0
                    else normal0)
     in dot normal1 (normal (vs ! v0)) > - eps16 \<and>
        dot normal1 (normal (vs ! v1)) > - eps16 \<and>
        dot normal1 (normal (vs ! v2)) > - eps16)"
  unfolding IsCompatible_def exact_simps vector_exact std_exact by (rule refl)

lemma AddAdjacentTriangle_exact:
  "AddAdjacentTriangle exact vs ts triangle e =
    (if Some triangle \<noteq> triangle0 e \<and> Some triangle \<noteq> triangle1 e then
       if triangle0 e = None then
         let e1 = e\<lparr>triangle0 := Some triangle, etype := Front\<rparr>
         in case GetOppositeVertex ts e1 of
              Some opp \<Rightarrow>
                let tr_norm0 = cross (point (vs ! target e1) - point (vs ! source e1))
                                     (point (vs ! opp) - point (vs ! source e1));
                    tr_norm = divide_by tr_norm0 (vnorm tr_norm0);
                    pt_norm0 = normal (vs ! source e1) + normal (vs ! target e1)
                               + normal (vs ! opp);
                    pt_norm = divide_by pt_norm0 (vnorm pt_norm0)
                in if dot pt_norm tr_norm < 0
                   then Inr (e1\<lparr>source := target e1, target := source e1\<rparr>)
                   else Inr e1
            | None \<Rightarrow> Inl (LogError ''GetOppositeVertex() returns nullptr.'')
       else if triangle1 e = None then Inr (e\<lparr>triangle1 := Some triangle, etype := Inner\<rparr>)
       else Inr e
     else Inr e)"
  unfolding AddAdjacentTriangle_def exact_simps vector_exact std_exact by (rule refl)

lemma emit_triangle_exact:
  "emit_triangle exact v0 v1 v2 s =
    (let face_normal = ComputeFaceNormal exact (point (vertices s ! v0)) (point (vertices s ! v1))
                                         (point (vertices s ! v2))
     in s\<lparr>mesh_triangles := mesh_triangles s @
              [if dot face_normal (normal (vertices s ! v0)) > - eps16 then (v0, v1, v2)
               else (v0, v2, v1)],
           mesh_triangle_normals := mesh_triangle_normals s @ [face_normal]\<rparr>)"
  unfolding emit_triangle_def exact_simps vector_exact std_exact by (rule refl)

lemma FindCandidateVertex_visit_exact:
  "FindCandidateVertex_visit exact it s radius src tgt opp mp v a indices nbidx acc =
    (let vs = vertices s;
         min_angle = snd acc
     in if nbidx = src \<or> nbidx = tgt \<or> nbidx = opp then acc
        else if PointsCoplanar it (point (vs ! src)) (point (vs ! tgt)) (point (vs ! opp))
                  (point (vs ! nbidx)) \<and>
                (LineSegmentsMinimumDistance it mp (point (vs ! nbidx)) (point (vs ! src))
                   (point (vs ! opp)) < 1 / 10 ^ 12 \<or>
                 LineSegmentsMinimumDistance it mp (point (vs ! nbidx)) (point (vs ! tgt))
                   (point (vs ! opp)) < 1 / 10 ^ 12)
          then acc
        else
          case ComputeBallCenter exact vs src tgt nbidx radius of
            None \<Rightarrow> acc
          | Some new_center \<Rightarrow>
              let b0 = new_center - mp;
                  b = divide_by b0 (vnorm b0);
                  cosinus0 = dot a b;
                  cosinus1 = min cosinus0 1;
                  cosinus = max cosinus1 (- 1);
                  angle0 = arccos cosinus;
                  c = cross a b;
                  angle = (if dot c v < 0 then 2 * M_PI - angle0 else angle0)
              in if angle \<ge> min_angle then acc
                 else if list_all (\<lambda>nbidx2.
                            nbidx2 = src \<or> nbidx2 = tgt \<or> nbidx2 = nbidx \<or>
                            \<not> vnorm (new_center - point (vs ! nbidx2)) < radius - eps16)
                          indices
                   then (Some (nbidx, new_center), angle)
                 else acc)"
  unfolding FindCandidateVertex_visit_def exact_simps vector_exact std_exact by (rule refl)

lemma FindCandidateVertex_exact:
  "FindCandidateVertex exact it edge radius s =
    (let e = edge_heap s ! edge;
         vs = vertices s;
         src = source e;
         tgt = target e
     in case GetOppositeVertex (triangle_heap s) e of
          None \<Rightarrow> Inl (LogError ''edge->GetOppositeVertex() returns nullptr.'')
        | Some opp \<Rightarrow>
           (case triangle0 e of
              None \<Rightarrow> Inl NullDereference
            | Some triangle \<Rightarrow>
                let mp = scale (1 / 2) (point (vs ! src) + point (vs ! tgt));
                    center = ball_center (triangle_heap s ! triangle);
                    v0 = point (vs ! tgt) - point (vs ! src);
                    v = divide_by v0 (vnorm v0);
                    a0 = center - mp;
                    a = divide_by a0 (vnorm a0);
                    indices = SearchRadius s mp (2 * radius)
                in Inr (fst (fold (FindCandidateVertex_visit exact it s radius src tgt opp mp v a
                                     indices)
                                  indices (None, 2 * M_PI)))))"
  unfolding FindCandidateVertex_def exact_simps vector_exact std_exact by (rule refl)

lemma TryTriangleSeed_exact:
  "TryTriangleSeed exact s v0 v1 v2 nb_indices radius =
    (if \<not> IsCompatible exact (vertices s) v0 v1 v2 then None
     else if (case GetLinkingEdge s v0 v2 of None \<Rightarrow> False
              | Some e0 \<Rightarrow> etype (edge_heap s ! e0) = Inner) then None
     else if (case GetLinkingEdge s v1 v2 of None \<Rightarrow> False
              | Some e1 \<Rightarrow> etype (edge_heap s ! e1) = Inner) then None
     else
       case ComputeBallCenter exact (vertices s) v0 v1 v2 radius of
         None \<Rightarrow> None
       | Some center \<Rightarrow>
           if list_ex (\<lambda>nbidx. \<not> (nbidx = v0 \<or> nbidx = v1 \<or> nbidx = v2) \<and>
                         vnorm (center - point (vertices s ! nbidx)) < radius - eps16)
                nb_indices
           then None
           else Some center)"
  unfolding TryTriangleSeed_def exact_simps vector_exact std_exact by (rule refl)

lemma TrySeed_exact:
  "TrySeed exact v radius s =
    (let indices = SearchRadius s (point (vertices s ! v)) (2 * radius)
     in if length indices < 3 then Inr (False, s)
        else TrySeed_loop exact v radius indices indices s)"
  unfolding TrySeed_def exact_simps vector_exact std_exact by (rule refl)

lemma Run_radius_exact:
  "Run_radius exact it radius s =
    (if radius \<le> 0 then Some (Inl (LogError ''got an invalid, negative radius as parameter''))
     else
       case update_border_edges exact radius (border_edges s) (s\<lparr>border_edges := []\<rparr>) of
         Inl err \<Rightarrow> Some (Inl err)
       | Inr s1 \<Rightarrow>
           if edge_front s1 = [] then FindSeedTriangle exact it radius s1
           else ExpandTriangulation exact it radius s1)"
  unfolding Run_radius_def exact_simps vector_exact std_exact by (rule refl)


section \<open>Geometric predicates\<close>

lemma dot_uminus_left: "dot (- u) v = - dot u v"
  by (simp add: dot_def uminus_Vector3d_def)

lemma scale_minus_one: "scale (- 1) u = - u"
  by (simp add: scale_def uminus_Vector3d_def)

lemma dot_divide_by: "dot (divide_by u k) v = dot u v / k"
  by (simp add: dot_def divide_by_def add_divide_distrib)

lemma dot_divide_by_right: "dot u (divide_by v k) = dot u v / k"
  by (simp add: dot_def divide_by_def add_divide_distrib)

lemma squaredNorm_nonneg: "0 \<le> squaredNorm v"
  by (simp add: squaredNorm_def dot_def)

lemma vnorm_nonneg: "0 \<le> vnorm v"
  by (simp add: vnorm_def squaredNorm_nonneg)

lemma squaredNorm_divide_by: "squaredNorm (divide_by v k) = squaredNorm v / (k * k)"
  by (simp add: squaredNorm_def dot_def divide_by_def add_divide_distrib)

lemma vnorm_unit: "0 < vnorm v \<Longrightarrow> vnorm (divide_by v (vnorm v)) = 1"
proof -
  assume pos: "0 < vnorm v"
  have "vnorm v * vnorm v = squaredNorm v"
    by (simp add: vnorm_def squaredNorm_nonneg)
  moreover have "squaredNorm v \<noteq> 0" using pos by (auto simp: vnorm_def)
  ultimately have "squaredNorm (divide_by v (vnorm v)) = 1"
    by (simp add: squaredNorm_divide_by)
  then show ?thesis by (simp add: vnorm_def)
qed

lemma vnorm_uminus: "vnorm (- v) = vnorm v"
  by (simp add: vnorm_def squaredNorm_def dot_def uminus_Vector3d_def)

lemma vnorm_zero_dot: "vnorm v = 0 \<Longrightarrow> dot u v = 0"
proof -
  assume "vnorm v = 0"
  then have "vx v * vx v + vy v * vy v + vz v * vz v = 0"
    by (simp add: vnorm_def squaredNorm_def dot_def)
  then have "vx v = 0 \<and> vy v = 0 \<and> vz v = 0"
    by (smt (verit) mult_eq_0_iff zero_le_square add_nonneg_eq_0_iff add_nonneg_nonneg)
  then show ?thesis by (simp add: dot_def)
qed

lemma lagrange: "squaredNorm (cross u w) = squaredNorm u * squaredNorm w - dot u w * dot u w"
  by (simp add: squaredNorm_def dot_def cross_def algebra_simps)

lemma squaredNorm_diff:
  "squaredNorm (w - u) = squaredNorm u + squaredNorm w - 2 * dot u w"
  by (simp add: squaredNorm_def dot_def minus_Vector3d_def algebra_simps)

lemma diff_diff_vec: "(v3 - v2 :: real Vector3d) = (v3 - v1) - (v2 - v1)"
  by (simp add: minus_Vector3d_def)

lemma squaredNorm_swap: "squaredNorm (u - w) = squaredNorm (w - u)"
  by (simp add: squaredNorm_def dot_def minus_Vector3d_def algebra_simps)

lemma barycentric_sum_cross:
  "barycentric_sum v1 v2 v3 = 4 * squaredNorm (cross (v2 - v1) (v3 - v1))"
proof -
  define u where "u = v2 - v1"
  define w where "w = v3 - v1"
  have a: "squaredNorm (v3 - v2) = squaredNorm u + squaredNorm w - 2 * dot u w"
    unfolding u_def w_def using squaredNorm_diff diff_diff_vec by metis
  have b: "squaredNorm (v1 - v3) = squaredNorm w"
    unfolding w_def by (rule squaredNorm_swap)
  show ?thesis
    unfolding barycentric_sum_def Let_def a b lagrange u_def[symmetric] w_def[symmetric]
    by (simp add: algebra_simps)
qed

lemma eps16_pos: "0 < eps16"
  by (simp add: eps16_def)

lemma triangle_unit_normal_unit:
  assumes "eps16 \<le> barycentric_sum v1 v2 v3"
  shows "vnorm (triangle_unit_normal v1 v2 v3) = 1"
proof -
  have "0 < squaredNorm (cross (v2 - v1) (v3 - v1))"
    using assms eps16_pos by (simp add: barycentric_sum_cross)
  then have "0 < vnorm (cross (v2 - v1) (v3 - v1))"
    by (simp add: vnorm_def)
  then show ?thesis
    unfolding triangle_unit_normal_def by (rule vnorm_unit)
qed

lemma heron_denominator:
  "(sa + sb + sc) * (- sa + sb + sc) * (sa - sb + sc) * (sa + sb - sc) =
   (sa + sb + sc) * (sb + sc - sa) * (sc + sa - sb) * (sa + sb - (sc::real))"
  by (simp add: algebra_simps)

lemma ComputeBallCenter_eq:
  "ComputeBallCenter exact vs i j k r =
    (let v1 = point (vs ! i); v2 = point (vs ! j); v3 = point (vs ! k);
         h2 = r\<^sup>2 - circumradius2 v1 v2 v3;
         u = triangle_unit_normal v1 v2 v3;
         ns = normal (vs ! i) + normal (vs ! j) + normal (vs ! k)
     in if barycentric_sum v1 v2 v3 < eps16 \<or> h2 < 0 then None
        else Some (circumcenter v1 v2 v3 +
                   scale (sqrt h2) (if dot u (divide_by ns (vnorm ns)) < 0 then - u else u)))"
  unfolding ComputeBallCenter_exact barycentric_sum_def circumcenter_def circumradius2_def
      triangle_unit_normal_def Let_def power2_eq_square scale_minus_one heron_denominator
  by (simp only: not_le if_distrib[of Some] split: if_splits) auto

lemma oriented_dot_nonneg:
  "0 \<le> dot (if dot u (divide_by ns (vnorm ns)) < 0 then - u else u) ns"
proof (cases "vnorm ns = 0")
  case True
  then show ?thesis by (simp add: vnorm_zero_dot)
next
  case False
  then have pos: "0 < vnorm ns" using vnorm_nonneg[of ns] by simp
  show ?thesis
    using pos by (auto simp: dot_divide_by_right dot_uminus_left divide_less_0_iff not_less
        zero_le_divide_iff)
qed

text \<open>
  In exact arithmetic \<open>ComputeBallCenter\<close> returns a center iff the barycentric weight sum is
  at least \<open>eps16\<close> and \<open>h\<^sup>2 = r\<^sup>2 - circumradius\<^sup>2\<close> is not negative. The center returned is
  the weighted circumcenter plus \<open>sqrt h\<^sup>2\<close> times the unit triangle normal, or its opposite,
  the one of the two whose dot with the sum of the three vertex normals is not negative.
\<close>

lemma ComputeBallCenter_real:
  "((\<exists>center. ComputeBallCenter exact vs i j k r = Some center) \<longleftrightarrow>
      eps16 \<le> barycentric_sum (point (vs ! i)) (point (vs ! j)) (point (vs ! k)) \<and>
      0 \<le> r\<^sup>2 - circumradius2 (point (vs ! i)) (point (vs ! j)) (point (vs ! k))) \<and>
   (\<forall>center. ComputeBallCenter exact vs i j k r = Some center \<longrightarrow>
      (\<exists>n. center = circumcenter (point (vs ! i)) (point (vs ! j)) (point (vs ! k)) +
                scale (sqrt (r\<^sup>2 - circumradius2 (point (vs ! i)) (point (vs ! j))
                               (point (vs ! k)))) n \<and>
           (n = triangle_unit_normal (point (vs ! i)) (point (vs ! j)) (point (vs ! k)) \<or>
            n = - triangle_unit_normal (point (vs ! i)) (point (vs ! j)) (point (vs ! k))) \<and>
           vnorm n = 1 \<and>
           0 \<le> dot n (normal (vs ! i) + normal (vs ! j) + normal (vs ! k))))"
proof (intro conjI allI impI)
  show "(\<exists>center. ComputeBallCenter exact vs i j k r = Some center) \<longleftrightarrow>
      eps16 \<le> barycentric_sum (point (vs ! i)) (point (vs ! j)) (point (vs ! k)) \<and>
      0 \<le> r\<^sup>2 - circumradius2 (point (vs ! i)) (point (vs ! j)) (point (vs ! k))"
    by (auto simp: ComputeBallCenter_eq Let_def)
next
  fix center
  assume some: "ComputeBallCenter exact vs i j k r = Some center"
  define u where "u = triangle_unit_normal (point (vs ! i)) (point (vs ! j)) (point (vs ! k))"
  define ns where "ns = normal (vs ! i) + normal (vs ! j) + normal (vs ! k)"
  define n where "n = (if dot u (divide_by ns (vnorm ns)) < 0 then - u else u)"
  have S: "eps16 \<le> barycentric_sum (point (vs ! i)) (point (vs ! j)) (point (vs ! k))"
    using some by (auto simp: ComputeBallCenter_eq Let_def split: if_splits)
  have c: "center = circumcenter (point (vs ! i)) (point (vs ! j)) (point (vs ! k)) +
                scale (sqrt (r\<^sup>2 - circumradius2 (point (vs ! i)) (point (vs ! j))
                               (point (vs ! k)))) n"
    using some unfolding n_def u_def ns_def
    by (auto simp: ComputeBallCenter_eq Let_def split: if_splits)
  have "vnorm u = 1"
    unfolding u_def using S by (rule triangle_unit_normal_unit)
  then have unit: "vnorm n = 1"
    by (simp add: n_def vnorm_uminus)
  have sign: "0 \<le> dot n ns"
    unfolding n_def by (rule oriented_dot_nonneg)
  have "n = u \<or> n = - u" by (simp add: n_def)
  with c unit sign show "\<exists>n. center = circumcenter (point (vs ! i)) (point (vs ! j)) (point (vs ! k)) +
                scale (sqrt (r\<^sup>2 - circumradius2 (point (vs ! i)) (point (vs ! j))
                               (point (vs ! k)))) n \<and>
           (n = triangle_unit_normal (point (vs ! i)) (point (vs ! j)) (point (vs ! k)) \<or>
            n = - triangle_unit_normal (point (vs ! i)) (point (vs ! j)) (point (vs ! k))) \<and>
           vnorm n = 1 \<and>
           0 \<le> dot n (normal (vs ! i) + normal (vs ! j) + normal (vs ! k))"
    unfolding u_def ns_def by blast
qed


lemma sqrt_values:
  "sqrt 9 = 3" "sqrt 16 = 4" "sqrt 25 = 5" "sqrt 36 = 6" "sqrt 144 = 12"
  by (rule real_sqrt_unique; simp)+

lemma ComputeBallCenter_triangle345:
  "ComputeBallCenter exact triangle345 0 1 2 (13 / 2) = Some (Vector3d (3 / 2) 2 6)"
  by (simp add: triangle345_def ComputeBallCenter_exact Let_def squaredNorm_def dot_def
      minus_Vector3d_def plus_Vector3d_def eps16_def sqrt_values cross_def vnorm_def
      divide_by_def scale_def)

lemma ComputeBallCenter_computed:
  "ComputeBallCenter ar vs i j k r =
    (let v1 = point (vs ! i); v2 = point (vs ! j); v3 = point (vs ! k);
         ns = fplus ar (fplus ar (normal (vs ! i)) (normal (vs ! j))) (normal (vs ! k))
     in if flt ar (computed_weight_sum ar v1 v2 v3) (lit ar eps16) then None
        else if fle ar (lit ar 0) (computed_height2 ar v1 v2 v3 r)
        then Some (fplus ar (computed_circumcenter ar v1 v2 v3)
                     (fscale ar (fsqrt ar (computed_height2 ar v1 v2 v3 r))
                        (computed_normal ar v1 v2 v3 ns)))
        else None)"
  unfolding ComputeBallCenter_def computed_weight_sum_def computed_circumcenter_def
    computed_height2_def computed_normal_def Let_def
  by (rule refl)

text \<open>
  C1, as the code has it. In every arithmetic, \<open>ComputeBallCenter\<close> fails when the sum of
  the weights that it has computed compares below \<open>eps16\<close>, or the squared height that it has
  computed does not compare at least zero (both happen with a value that is not a number in
  the second test, neither in the first); otherwise it returns the circumcenter that it has
  computed plus the square root of the squared height times the normal that it has computed.
  In exact arithmetic these tests are those of the specification on the exact quantities:
  \<open>ComputeBallCenter\<close> returns a center iff the barycentric weight sum is at least \<open>eps16\<close>
  and \<open>h\<^sup>2 = r\<^sup>2 - circumradius\<^sup>2\<close> is not negative, and the center returned is the weighted
  circumcenter plus \<open>sqrt h\<^sup>2\<close> times the unit triangle normal, or its opposite, the one of
  the two whose dot with the sum of the three vertex normals is not negative.
\<close>

theorem ComputeBallCenter_spec:
  "ComputeBallCenter ar ws i j k radius =
    (let v1 = point (ws ! i); v2 = point (ws ! j); v3 = point (ws ! k);
         ns = fplus ar (fplus ar (normal (ws ! i)) (normal (ws ! j))) (normal (ws ! k))
     in if flt ar (computed_weight_sum ar v1 v2 v3) (lit ar eps16) then None
        else if fle ar (lit ar 0) (computed_height2 ar v1 v2 v3 radius)
        then Some (fplus ar (computed_circumcenter ar v1 v2 v3)
                     (fscale ar (fsqrt ar (computed_height2 ar v1 v2 v3 radius))
                        (computed_normal ar v1 v2 v3 ns)))
        else None) \<and>
   ((\<exists>center. ComputeBallCenter exact vs i j k r = Some center) \<longleftrightarrow>
      eps16 \<le> barycentric_sum (point (vs ! i)) (point (vs ! j)) (point (vs ! k)) \<and>
      0 \<le> r\<^sup>2 - circumradius2 (point (vs ! i)) (point (vs ! j)) (point (vs ! k))) \<and>
   (\<forall>center. ComputeBallCenter exact vs i j k r = Some center \<longrightarrow>
      (\<exists>n. center = circumcenter (point (vs ! i)) (point (vs ! j)) (point (vs ! k)) +
                scale (sqrt (r\<^sup>2 - circumradius2 (point (vs ! i)) (point (vs ! j))
                               (point (vs ! k)))) n \<and>
           (n = triangle_unit_normal (point (vs ! i)) (point (vs ! j)) (point (vs ! k)) \<or>
            n = - triangle_unit_normal (point (vs ! i)) (point (vs ! j)) (point (vs ! k))) \<and>
           vnorm n = 1 \<and>
           0 \<le> dot n (normal (vs ! i) + normal (vs ! j) + normal (vs ! k))))"
  using ComputeBallCenter_computed[of ar ws i j k radius] ComputeBallCenter_real[of vs i j k r]
  by (rule conjI)

theorem ComputeBallCenter_spec_witness:
  "ComputeBallCenter exact triangle345 0 1 2 (13 / 2) = Some (Vector3d (3 / 2) 2 6) \<and>
   eps16 \<le> barycentric_sum (point (triangle345 ! 0)) (point (triangle345 ! 1))
              (point (triangle345 ! 2)) \<and>
   0 \<le> (13 / 2)\<^sup>2 - circumradius2 (point (triangle345 ! 0)) (point (triangle345 ! 1))
                        (point (triangle345 ! 2)) \<and>
   (\<exists>n. Vector3d (3 / 2) 2 6 =
          circumcenter (point (triangle345 ! 0)) (point (triangle345 ! 1))
            (point (triangle345 ! 2)) +
          scale (sqrt ((13 / 2)\<^sup>2 - circumradius2 (point (triangle345 ! 0))
                          (point (triangle345 ! 1)) (point (triangle345 ! 2)))) n \<and>
        vnorm n = 1 \<and>
        0 \<le> dot n (normal (triangle345 ! 0) + normal (triangle345 ! 1)
                     + normal (triangle345 ! 2)))"
  using ComputeBallCenter_spec [of exact triangle345 0 1 2 "13 / 2" triangle345 "13 / 2"]
    ComputeBallCenter_triangle345
  by blast

text \<open>
  C8, as the code has it. \<open>IsCompatible\<close> turns the face normal over only when its dot with
  the normal of \<open>v0\<close> is below \<open>- eps16\<close>, and holds iff the three dots of the resulting
  normal with the vertex normals are all strictly above \<open>- eps16\<close>: so it is in every
  arithmetic, on the dots as computed. In exact arithmetic, in terms of the dots
  \<open>d0\<close>, \<open>d1\<close>, \<open>d2\<close> of the face normal: all three are above \<open>- eps16\<close>, or
  \<open>d0\<close> is below \<open>- eps16\<close> and \<open>d1\<close>, \<open>d2\<close> are below \<open>eps16\<close>.
\<close>

theorem IsCompatible_thresholds:
  "(IsCompatible ar ws w0 w1 w2 \<longleftrightarrow>
     (let n0 = ComputeFaceNormal ar (point (ws ! w0)) (point (ws ! w1)) (point (ws ! w2));
          n = (if flt ar (fdot ar n0 (normal (ws ! w0))) (lit ar (- eps16))
               then ftimes ar n0 (lit ar (- 1)) else n0)
      in flt ar (lit ar (- eps16)) (fdot ar n (normal (ws ! w0))) \<and>
         flt ar (lit ar (- eps16)) (fdot ar n (normal (ws ! w1))) \<and>
         flt ar (lit ar (- eps16)) (fdot ar n (normal (ws ! w2))))) \<and>
   (IsCompatible exact vs v0 v1 v2 \<longleftrightarrow>
     (let n0 = ComputeFaceNormal exact (point (vs ! v0)) (point (vs ! v1)) (point (vs ! v2));
          n = (if dot n0 (normal (vs ! v0)) < - eps16 then - n0 else n0)
      in - eps16 < dot n (normal (vs ! v0)) \<and>
         - eps16 < dot n (normal (vs ! v1)) \<and>
         - eps16 < dot n (normal (vs ! v2)))) \<and>
   (IsCompatible exact vs v0 v1 v2 \<longleftrightarrow>
     (let n0 = ComputeFaceNormal exact (point (vs ! v0)) (point (vs ! v1)) (point (vs ! v2));
          d0 = dot n0 (normal (vs ! v0));
          d1 = dot n0 (normal (vs ! v1));
          d2 = dot n0 (normal (vs ! v2))
      in (- eps16 < d0 \<and> - eps16 < d1 \<and> - eps16 < d2) \<or>
         (d0 < - eps16 \<and> d1 < eps16 \<and> d2 < eps16)))"
proof -
  have pos: "0 < eps16" by (rule eps16_pos)
  have general: "IsCompatible ar ws w0 w1 w2 \<longleftrightarrow>
     (let n0 = ComputeFaceNormal ar (point (ws ! w0)) (point (ws ! w1)) (point (ws ! w2));
          n = (if flt ar (fdot ar n0 (normal (ws ! w0))) (lit ar (- eps16))
               then ftimes ar n0 (lit ar (- 1)) else n0)
      in flt ar (lit ar (- eps16)) (fdot ar n (normal (ws ! w0))) \<and>
         flt ar (lit ar (- eps16)) (fdot ar n (normal (ws ! w1))) \<and>
         flt ar (lit ar (- eps16)) (fdot ar n (normal (ws ! w2))))"
    unfolding IsCompatible_def by (rule refl)
  have real: "(IsCompatible exact vs v0 v1 v2 \<longleftrightarrow>
     (let n0 = ComputeFaceNormal exact (point (vs ! v0)) (point (vs ! v1)) (point (vs ! v2));
          n = (if dot n0 (normal (vs ! v0)) < - eps16 then - n0 else n0)
      in - eps16 < dot n (normal (vs ! v0)) \<and>
         - eps16 < dot n (normal (vs ! v1)) \<and>
         - eps16 < dot n (normal (vs ! v2)))) \<and>
   (IsCompatible exact vs v0 v1 v2 \<longleftrightarrow>
     (let n0 = ComputeFaceNormal exact (point (vs ! v0)) (point (vs ! v1)) (point (vs ! v2));
          d0 = dot n0 (normal (vs ! v0));
          d1 = dot n0 (normal (vs ! v1));
          d2 = dot n0 (normal (vs ! v2))
      in (- eps16 < d0 \<and> - eps16 < d1 \<and> - eps16 < d2) \<or>
         (d0 < - eps16 \<and> d1 < eps16 \<and> d2 < eps16)))"
    using pos by (auto simp: IsCompatible_exact Let_def scale_minus_one dot_uminus_left)
  from general real show ?thesis by (rule conjI)
qed

lemma ComputeFaceNormal_tilted:
  "ComputeFaceNormal exact (point (tilted_triangle ! 0)) (point (tilted_triangle ! 1))
     (point (tilted_triangle ! 2)) = Vector3d 0 0 1"
  by (simp add: tilted_triangle_def ComputeFaceNormal_exact Let_def cross_def minus_Vector3d_def
      vnorm_def squaredNorm_def dot_def divide_by_def)

lemma tilted_dots:
  "dot (Vector3d 0 0 1) (normal (tilted_triangle ! 0)) = - (2 * 10 ^ 17) / (10 ^ 34 + 1)"
  "dot (Vector3d 0 0 1) (normal (tilted_triangle ! 1)) = 1"
  "dot (Vector3d 0 0 1) (normal (tilted_triangle ! Suc 0)) = 1"
  "dot (Vector3d 0 0 1) (normal (tilted_triangle ! 2)) = 1"
  by (simp_all add: tilted_triangle_def dot_def)

lemma IsCompatible_tilted: "IsCompatible exact tilted_triangle 0 1 2"
  unfolding IsCompatible_exact ComputeFaceNormal_tilted Let_def
  by (simp add: tilted_dots eps16_def)

theorem IsCompatible_thresholds_witness:
  "IsCompatible exact tilted_triangle 0 1 2 \<and>
   (let n0 = ComputeFaceNormal exact (point (tilted_triangle ! 0)) (point (tilted_triangle ! 1))
               (point (tilted_triangle ! 2));
        d0 = dot n0 (normal (tilted_triangle ! 0));
        d1 = dot n0 (normal (tilted_triangle ! 1));
        d2 = dot n0 (normal (tilted_triangle ! 2))
    in (- eps16 < d0 \<and> - eps16 < d1 \<and> - eps16 < d2) \<or>
       (d0 < - eps16 \<and> d1 < eps16 \<and> d2 < eps16))"
  using IsCompatible_thresholds [of exact tilted_triangle 0 1 2 tilted_triangle 0 1 2]
    IsCompatible_tilted
  by blast

text \<open>
  C8, as the specification states it, fails: on the tilted triangle the dot of the face normal
  with the (unit) normal of \<open>v0\<close> is about \<open>- 2 / 10 ^ 17\<close>, so the code does not turn the
  normal over and accepts, while the oriented normal of the specification points down and
  has dot \<open>- 1\<close> with the other two normals.
\<close>

theorem IsCompatible_as_specified_counterexample:
  "squaredNorm (normal (tilted_triangle ! 0)) = 1 \<and>
   IsCompatible exact tilted_triangle 0 1 2 \<and>
   \<not> IsCompatible_as_specified tilted_triangle 0 1 2"
proof (intro conjI)
  show "squaredNorm (normal (tilted_triangle ! 0)) = 1"
    by (simp add: tilted_triangle_def squaredNorm_def dot_def field_simps)
  show "IsCompatible exact tilted_triangle 0 1 2" by (rule IsCompatible_tilted)
  show "\<not> IsCompatible_as_specified tilted_triangle 0 1 2"
    unfolding IsCompatible_as_specified_def ComputeFaceNormal_tilted Let_def
    by (simp add: dot_uminus_left tilted_dots eps16_def)
qed


lemma squaredNorm_self [simp]: "squaredNorm (v - v) = 0"
  by (simp add: squaredNorm_def dot_def minus_Vector3d_def)

text \<open>No ball rests on a triangle with a vertex taken twice, in exact arithmetic.\<close>

lemma degenerate_fails_exact: "degenerate_fails exact"
  unfolding degenerate_fails_def
  by (simp add: ComputeBallCenter_exact Let_def eps16_pos
      squaredNorm_swap[of "point (vs ! i)" "point (vs ! j)" for vs i j])


section \<open>Vertex classification\<close>

text \<open>
  C5, as the code has it. After \<open>UpdateType\<close> a vertex is Orphan iff it has no incident
  edge, Front iff at least one incident edge is not Inner (a Front or a Border edge), and
  Inner iff it has an incident edge and all its incident edges are Inner.
\<close>

theorem UpdateType_classification:
  "(vtype (UpdateType es v) = Orphan \<longleftrightarrow> edges v = []) \<and>
   (vtype (UpdateType es v) = VFront \<longleftrightarrow> (\<exists>e \<in> set (edges v). etype (es ! e) \<noteq> Inner)) \<and>
   (vtype (UpdateType es v) = VInner \<longleftrightarrow>
      edges v \<noteq> [] \<and> (\<forall>e \<in> set (edges v). etype (es ! e) = Inner))"
  by (auto simp: UpdateType_def list_ex_iff)

theorem UpdateType_classification_witness:
  "vtype (UpdateType border_edge_only border_vertex) = VFront \<and>
   (\<exists>e \<in> set (edges border_vertex). etype (border_edge_only ! e) \<noteq> Inner)"
proof -
  have "vtype (UpdateType border_edge_only border_vertex) = VFront"
    by (simp add: UpdateType_def border_edge_only_def border_vertex_def)
  then show ?thesis
    using UpdateType_classification [of border_edge_only border_vertex] by blast
qed

text \<open>
  C5, as the specification states it, fails: a vertex whose only incident edge is a Border
  edge is classified Front, although none of its incident edges is Front.
\<close>

theorem UpdateType_front_counterexample:
  "edges border_vertex = [0] \<and>
   etype (border_edge_only ! 0) \<noteq> Front \<and>
   vtype (UpdateType border_edge_only border_vertex) = VFront"
  by (simp add: UpdateType_def border_edge_only_def border_vertex_def)


section \<open>The topology store\<close>

subsection \<open>Looking an edge up\<close>

lemma endpoints_pair:
  "endpoints e = {a, b} \<longleftrightarrow> (source e = a \<and> target e = b) \<or> (source e = b \<and> target e = a)"
  by (auto simp: endpoints_def doubleton_eq_iff)

lemma find_SomeD: "find P xs = Some x \<Longrightarrow> x \<in> set xs \<and> P x"
  by (induction xs) (auto split: if_splits)

lemma GetLinkingEdge_sound:
  assumes V: "vertices_ok s" and a: "a < length (vertices s)" and b: "b < length (vertices s)"
    and ab: "a \<noteq> b" and g: "GetLinkingEdge s a b = Some e"
  shows "e < length (edge_heap s) \<and> endpoints (edge_heap s ! e) = {a, b}"
proof -
  from g have e: "e \<in> set (edges (vertices s ! a))"
    and ex: "list_ex (\<lambda>edge1. source (edge_heap s ! e) = source (edge_heap s ! edge1) \<and>
                target (edge_heap s ! e) = target (edge_heap s ! edge1)) (edges (vertices s ! b))"
    unfolding GetLinkingEdge_def by (auto dest: find_SomeD)
  from ex obtain e1 where e1: "e1 \<in> set (edges (vertices s ! b))"
    and same: "source (edge_heap s ! e) = source (edge_heap s ! e1)"
              "target (edge_heap s ! e) = target (edge_heap s ! e1)"
    by (auto simp: list_ex_iff)
  from V a e have 1: "e < length (edge_heap s)" "a \<in> endpoints (edge_heap s ! e)"
    by (auto simp: vertices_ok_def)
  from V b e1 have "b \<in> endpoints (edge_heap s ! e1)"
    by (auto simp: vertices_ok_def)
  with same have 2: "b \<in> endpoints (edge_heap s ! e)"
    by (simp add: endpoints_def)
  from 1 2 ab show ?thesis
    by (auto simp: endpoints_def)
qed

lemma GetLinkingEdge_complete:
  assumes E: "edges_ok s" and V: "vertices_ok s" and U: "unique_edges s"
    and a: "a < length (vertices s)" and b: "b < length (vertices s)" and ab: "a \<noteq> b"
    and e: "e < length (edge_heap s)" and ends: "endpoints (edge_heap s ! e) = {a, b}"
  shows "GetLinkingEdge s a b = Some e"
proof -
  from E e ends have ina: "e \<in> set (edges (vertices s ! a))"
    and inb: "e \<in> set (edges (vertices s ! b))"
    unfolding edges_ok_def endpoints_pair by auto
  have "GetLinkingEdge s a b \<noteq> None"
    unfolding GetLinkingEdge_def find_None_iff list_ex_iff using ina inb by blast
  then obtain e' where g: "GetLinkingEdge s a b = Some e'" by auto
  from GetLinkingEdge_sound[OF V a b ab g] ends U e have "e' = e"
    unfolding unique_edges_def by auto
  with g show ?thesis by simp
qed

lemma GetLinkingEdge_iff:
  assumes "edges_ok s" "vertices_ok s" "unique_edges s"
    and "a < length (vertices s)" "b < length (vertices s)" "a \<noteq> b"
  shows "GetLinkingEdge s a b = Some e \<longleftrightarrow>
         e < length (edge_heap s) \<and> endpoints (edge_heap s ! e) = {a, b}"
  using assms GetLinkingEdge_sound GetLinkingEdge_complete by blast

lemma GetLinkingEdge_None_iff:
  assumes "edges_ok s" "vertices_ok s" "unique_edges s"
    and "a < length (vertices s)" "b < length (vertices s)" "a \<noteq> b"
  shows "GetLinkingEdge s a b = None \<longleftrightarrow>
         (\<forall>e < length (edge_heap s). endpoints (edge_heap s ! e) \<noteq> {a, b})"
proof -
  have "GetLinkingEdge s a b = None \<longleftrightarrow> (\<forall>e. GetLinkingEdge s a b \<noteq> Some e)" by auto
  then show ?thesis
    using GetLinkingEdge_iff[OF assms] by auto
qed

subsection \<open>Filling the second slot\<close>

lemma endpoints_update [simp]:
  "endpoints (e\<lparr>triangle1 := t\<rparr>) = endpoints e"
  "endpoints (e\<lparr>triangle0 := t\<rparr>) = endpoints e"
  "endpoints (e\<lparr>etype := y\<rparr>) = endpoints e"
  by (simp_all add: endpoints_def)

lemma slots_fill:
  "triangle1 e = None \<Longrightarrow> slots (e\<lparr>triangle1 := Some k\<rparr>) = insert k (slots e)"
  by (simp add: slots_def)

lemma slots_update [simp]:
  "slots (e\<lparr>etype := y\<rparr>) = slots e"
  "slots (e\<lparr>source := a\<rparr>) = slots e"
  "slots (e\<lparr>target := a\<rparr>) = slots e"
  by (simp_all add: slots_def)

lemma fill_second_simps [simp]:
  "vertices (fill_second e k s) = vertices s"
  "triangle_heap (fill_second e k s) = triangle_heap s"
  "edge_front (fill_second e k s) = edge_front s"
  "border_edges (fill_second e k s) = border_edges s"
  "mesh_triangles (fill_second e k s) = mesh_triangles s"
  "mesh_triangle_normals (fill_second e k s) = mesh_triangle_normals s"
  "SearchRadius (fill_second e k s) = SearchRadius s"
  "has_normals (fill_second e k s) = has_normals s"
  "length (edge_heap (fill_second e k s)) = length (edge_heap s)"
  by (simp_all add: fill_second_def)

lemma fill_second_nth:
  "x < length (edge_heap s) \<Longrightarrow>
   edge_heap (fill_second e k s) ! x =
     (if x = e then (edge_heap s ! e)\<lparr>triangle1 := Some k, etype := Inner\<rparr> else edge_heap s ! x)"
  by (simp add: fill_second_def nth_list_update)

lemma fill_second_endpoints [simp]:
  "x < length (edge_heap s) \<Longrightarrow>
   endpoints (edge_heap (fill_second e k s) ! x) = endpoints (edge_heap s ! x)"
  by (simp add: fill_second_nth endpoints_def)

lemma fill_second_source [simp]:
  "x < length (edge_heap s) \<Longrightarrow>
   source (edge_heap (fill_second e k s) ! x) = source (edge_heap s ! x)"
  "x < length (edge_heap s) \<Longrightarrow>
   target (edge_heap (fill_second e k s) ! x) = target (edge_heap s ! x)"
  "x < length (edge_heap s) \<Longrightarrow>
   triangle0 (edge_heap (fill_second e k s) ! x) = triangle0 (edge_heap s ! x)"
  by (simp_all add: fill_second_nth)

lemma fill_second_slots:
  "x < length (edge_heap s) \<Longrightarrow> triangle1 (edge_heap s ! e) = None \<Longrightarrow>
   slots (edge_heap (fill_second e k s) ! x) =
     (if x = e then insert k (slots (edge_heap s ! x)) else slots (edge_heap s ! x))"
  by (auto simp: fill_second_nth slots_def)

lemma slots_ok_fill_second:
  assumes ok: "slots_ok s" and e: "e < length (edge_heap s)"
    and t1: "triangle1 (edge_heap s ! e) = None"
    and k: "k < length (triangle_heap s)" and fresh: "k \<notin> slots (edge_heap s ! e)"
    and sub: "endpoints (edge_heap s ! e) \<subseteq> corners (triangle_heap s ! k)"
  shows "slots_ok (fill_second e k s)"
  unfolding slots_ok_def
proof (intro allI impI)
  fix x
  assume "x < length (edge_heap (fill_second e k s))"
  then have x: "x < length (edge_heap s)" by simp
  from ok x have old: "triangle0 (edge_heap s ! x) \<noteq> None"
    "triangle0 (edge_heap s ! x) \<noteq> triangle1 (edge_heap s ! x)"
    "\<forall>t \<in> slots (edge_heap s ! x). t < length (triangle_heap s) \<and>
        endpoints (edge_heap s ! x) \<subseteq> corners (triangle_heap s ! t)"
    unfolding slots_ok_def by blast+
  show "triangle0 (edge_heap (fill_second e k s) ! x) \<noteq> None \<and>
        triangle0 (edge_heap (fill_second e k s) ! x) \<noteq>
          triangle1 (edge_heap (fill_second e k s) ! x) \<and>
        (\<forall>t \<in> slots (edge_heap (fill_second e k s) ! x).
           t < length (triangle_heap (fill_second e k s)) \<and>
           endpoints (edge_heap (fill_second e k s) ! x)
             \<subseteq> corners (triangle_heap (fill_second e k s) ! t))"
  proof (cases "x = e")
    case True
    have neq: "triangle0 (edge_heap s ! e) \<noteq> Some k"
      using fresh by (auto simp: slots_def)
    have sl: "slots (edge_heap (fill_second e k s) ! e) = insert k (slots (edge_heap s ! e))"
      using fill_second_slots[OF e t1, of k] by simp
    have t1': "triangle1 (edge_heap (fill_second e k s) ! e) = Some k"
      using e by (simp add: fill_second_nth)
    show ?thesis
      unfolding True sl t1' using old[unfolded True] neq k sub e by simp
  next
    case False
    then have "edge_heap (fill_second e k s) ! x = edge_heap s ! x"
      using x by (simp add: fill_second_nth)
    then show ?thesis using old by simp
  qed
qed

lemma types_ok_fill_second:
  assumes ok: "types_ok s" and e: "e < length (edge_heap s)"
    and front: "etype (edge_heap s ! e) = Front"
  shows "types_ok (fill_second e k s)"
  unfolding types_ok_def
proof (intro allI impI)
  fix x
  assume "x < length (edge_heap (fill_second e k s))"
  then have x: "x < length (edge_heap s)" by simp
  from ok x have old:
    "etype (edge_heap s ! x) = Inner \<longleftrightarrow> triangle1 (edge_heap s ! x) \<noteq> None"
    "etype (edge_heap s ! x) = Border \<longleftrightarrow> x \<in> set (border_edges s)"
    unfolding types_ok_def by blast+
  show "(etype (edge_heap (fill_second e k s) ! x) = Inner \<longleftrightarrow>
           triangle1 (edge_heap (fill_second e k s) ! x) \<noteq> None) \<and>
        (etype (edge_heap (fill_second e k s) ! x) = Border \<longleftrightarrow>
           x \<in> set (border_edges (fill_second e k s)))"
  proof (cases "x = e")
    case True
    then show ?thesis using old front e by (simp add: fill_second_nth)
  next
    case False
    then show ?thesis using old x by (simp add: fill_second_nth)
  qed
qed

lemma linked_fill_second:
  assumes e: "e < length (edge_heap s)" and t1: "triangle1 (edge_heap s ! e) = None"
    and l: "linked s a b t"
  shows "linked (fill_second e k s) a b t"
proof -
  from l obtain x where x: "x < length (edge_heap s)"
    and ends: "endpoints (edge_heap s ! x) = {a, b}" and t: "t \<in> slots (edge_heap s ! x)"
    unfolding linked_def by blast
  have "t \<in> slots (edge_heap (fill_second e k s) ! x)"
    using t by (auto simp: fill_second_slots[OF x t1])
  moreover have "endpoints (edge_heap (fill_second e k s) ! x) = {a, b}"
    using x ends by simp
  ultimately show ?thesis
    unfolding linked_def using x by auto
qed

lemma triangle_ok_fill_second:
  assumes e: "e < length (edge_heap s)" and t1: "triangle1 (edge_heap s ! e) = None"
    and ok: "triangle_ok s t"
  shows "triangle_ok (fill_second e k s) t"
  using ok linked_fill_second[OF e t1] unfolding triangle_ok_def
  by (simp only: fill_second_simps) blast

lemma triangles_ok_fill_second:
  assumes ok: "triangles_ok s" and e: "e < length (edge_heap s)"
    and t1: "triangle1 (edge_heap s ! e) = None"
  shows "triangles_ok (fill_second e k s)"
  using ok triangle_ok_fill_second[OF e t1] unfolding triangles_ok_def
  by (simp only: fill_second_simps) blast

lemma store_ok_fill_second:
  assumes ok: "store_ok s" and e: "e < length (edge_heap s)"
    and front: "etype (edge_heap s ! e) = Front"
    and k: "k < length (triangle_heap s)" and fresh: "k \<notin> slots (edge_heap s ! e)"
    and sub: "endpoints (edge_heap s ! e) \<subseteq> corners (triangle_heap s ! k)"
  shows "store_ok (fill_second e k s)"
proof -
  from ok e front have t1: "triangle1 (edge_heap s ! e) = None"
    by (auto simp: store_ok_def types_ok_def)
  have "edges_ok (fill_second e k s)"
    using ok by (simp add: store_ok_def edges_ok_def)
  moreover have "vertices_ok (fill_second e k s)"
    using ok by (simp add: store_ok_def vertices_ok_def)
  moreover have "unique_edges (fill_second e k s)"
    using ok by (simp add: store_ok_def unique_edges_def)
  moreover have "slots_ok (fill_second e k s)"
    using ok e t1 k fresh sub by (simp add: store_ok_def slots_ok_fill_second)
  moreover have "types_ok (fill_second e k s)"
    using ok e front by (simp add: store_ok_def types_ok_fill_second)
  moreover have "triangles_ok (fill_second e k s)"
    using ok e t1 by (simp add: store_ok_def triangles_ok_fill_second)
  moreover have "queues_ok (fill_second e k s)"
    using ok by (simp add: store_ok_def queues_ok_def)
  moreover have "index_ok (fill_second e k s)"
    using ok by (simp add: store_ok_def index_ok_def)
  ultimately show ?thesis by (simp add: store_ok_def)
qed

subsection \<open>Allocating an edge\<close>

lemma insert_edge_length [simp]: "length (insert_edge v e vs) = length vs"
  by (simp add: insert_edge_def)

lemma insert_edge_nth:
  "u < length vs \<Longrightarrow>
   insert_edge v e vs ! u =
     (if u = v then (vs ! v)\<lparr>edges := List.insert e (edges (vs ! v))\<rparr> else vs ! u)"
  by (simp add: insert_edge_def nth_list_update)

lemma add_edge_simps [simp]:
  "triangle_heap (add_edge a b k sw s) = triangle_heap s"
  "edge_front (add_edge a b k sw s) = edge_front s"
  "border_edges (add_edge a b k sw s) = border_edges s"
  "mesh_triangles (add_edge a b k sw s) = mesh_triangles s"
  "mesh_triangle_normals (add_edge a b k sw s) = mesh_triangle_normals s"
  "SearchRadius (add_edge a b k sw s) = SearchRadius s"
  "has_normals (add_edge a b k sw s) = has_normals s"
  "length (edge_heap (add_edge a b k sw s)) = Suc (length (edge_heap s))"
  "length (vertices (add_edge a b k sw s)) = length (vertices s)"
  by (simp_all add: add_edge_def)

lemma add_edge_old [simp]:
  "x < length (edge_heap s) \<Longrightarrow> edge_heap (add_edge a b k sw s) ! x = edge_heap s ! x"
  by (simp add: add_edge_def nth_append)

lemma add_edge_new:
  "endpoints (edge_heap (add_edge a b k sw s) ! length (edge_heap s)) = {a, b}"
  "slots (edge_heap (add_edge a b k sw s) ! length (edge_heap s)) = {k}"
  "triangle0 (edge_heap (add_edge a b k sw s) ! length (edge_heap s)) = Some k"
  "triangle1 (edge_heap (add_edge a b k sw s) ! length (edge_heap s)) = None"
  "etype (edge_heap (add_edge a b k sw s) ! length (edge_heap s)) = Front"
  "source (edge_heap (add_edge a b k sw s) ! length (edge_heap s)) = (if sw then b else a)"
  "target (edge_heap (add_edge a b k sw s) ! length (edge_heap s)) = (if sw then a else b)"
  by (auto simp: add_edge_def endpoints_def slots_def)

lemma insert_not_Nil [simp]: "List.insert x xs \<noteq> []"
  by (auto simp: List.insert_def)

lemma add_edge_vertex:
  assumes "v < length (vertices s)"
  shows "vtype (vertices (add_edge a b k sw s) ! v) = vtype (vertices s ! v)"
    and "point (vertices (add_edge a b k sw s) ! v) = point (vertices s ! v)"
    and "normal (vertices (add_edge a b k sw s) ! v) = normal (vertices s ! v)"
    and "set (edges (vertices (add_edge a b k sw s) ! v)) =
           (if v = a \<or> v = b then insert (length (edge_heap s)) (set (edges (vertices s ! v)))
            else set (edges (vertices s ! v)))"
    and "v \<noteq> a \<Longrightarrow> v \<noteq> b \<Longrightarrow>
           edges (vertices (add_edge a b k sw s) ! v) = edges (vertices s ! v)"
    and "v = a \<or> v = b \<Longrightarrow> edges (vertices (add_edge a b k sw s) ! v) \<noteq> []"
  using assms by (auto simp: add_edge_def insert_edge_nth)

lemma less_Suc_cases: "x < Suc n \<Longrightarrow> (x < n \<Longrightarrow> P) \<Longrightarrow> (x = n \<Longrightarrow> P) \<Longrightarrow> P"
  by (auto simp: less_Suc_eq)

lemma edges_ok_add_edge:
  assumes ok: "edges_ok s" and a: "a < length (vertices s)" and b: "b < length (vertices s)"
    and ab: "a \<noteq> b"
  shows "edges_ok (add_edge a b k sw s)"
  unfolding edges_ok_def
proof (intro allI impI)
  fix x
  let ?s = "add_edge a b k sw s"
  assume "x < length (edge_heap ?s)"
  then have x: "x < Suc (length (edge_heap s))" by simp
  show "source (edge_heap ?s ! x) < length (vertices ?s) \<and>
        target (edge_heap ?s ! x) < length (vertices ?s) \<and>
        source (edge_heap ?s ! x) \<noteq> target (edge_heap ?s ! x) \<and>
        x \<in> set (edges (vertices ?s ! source (edge_heap ?s ! x))) \<and>
        x \<in> set (edges (vertices ?s ! target (edge_heap ?s ! x)))"
  proof (rule less_Suc_cases[OF x])
    assume old: "x < length (edge_heap s)"
    with ok have o: "source (edge_heap s ! x) < length (vertices s)"
      "target (edge_heap s ! x) < length (vertices s)"
      "source (edge_heap s ! x) \<noteq> target (edge_heap s ! x)"
      "x \<in> set (edges (vertices s ! source (edge_heap s ! x)))"
      "x \<in> set (edges (vertices s ! target (edge_heap s ! x)))"
      unfolding edges_ok_def by blast+
    show ?thesis
      using o old by (auto simp: add_edge_vertex(4))
  next
    assume new: "x = length (edge_heap s)"
    show ?thesis
      unfolding new using a b ab by (simp add: add_edge_new add_edge_vertex(4))
  qed
qed

lemma vertices_ok_add_edge:
  assumes ok: "vertices_ok s"
  shows "vertices_ok (add_edge a b k sw s)"
  unfolding vertices_ok_def
proof (intro allI impI ballI)
  fix v x
  let ?s = "add_edge a b k sw s"
  assume "v < length (vertices ?s)" and xin: "x \<in> set (edges (vertices ?s ! v))"
  then have v: "v < length (vertices s)" by simp
  from xin have "x \<in> set (edges (vertices s ! v)) \<or> (x = length (edge_heap s) \<and> (v = a \<or> v = b))"
    by (auto simp: add_edge_vertex(4)[OF v] split: if_splits)
  then show "x < length (edge_heap ?s) \<and> v \<in> endpoints (edge_heap ?s ! x)"
  proof
    assume "x \<in> set (edges (vertices s ! v))"
    with ok v have "x < length (edge_heap s)" "v \<in> endpoints (edge_heap s ! x)"
      unfolding vertices_ok_def by blast+
    then show ?thesis by simp
  next
    assume "x = length (edge_heap s) \<and> (v = a \<or> v = b)"
    then show ?thesis by (auto simp: add_edge_new)
  qed
qed

lemma unique_edges_add_edge:
  assumes ok: "unique_edges s"
    and none: "\<forall>e < length (edge_heap s). endpoints (edge_heap s ! e) \<noteq> {a, b}"
  shows "unique_edges (add_edge a b k sw s)"
  unfolding unique_edges_def
proof (intro allI impI)
  fix x y
  let ?s = "add_edge a b k sw s"
  assume "x < length (edge_heap ?s)" "y < length (edge_heap ?s)"
    and same: "endpoints (edge_heap ?s ! x) = endpoints (edge_heap ?s ! y)"
  then have x: "x < Suc (length (edge_heap s))" and y: "y < Suc (length (edge_heap s))"
    by simp_all
  show "x = y"
  proof (rule less_Suc_cases[OF x]; rule less_Suc_cases[OF y])
    assume "x < length (edge_heap s)" "y < length (edge_heap s)"
    then show ?thesis using same ok unfolding unique_edges_def by simp
  next
    assume "x < length (edge_heap s)" "y = length (edge_heap s)"
    then show ?thesis using same none by (simp add: add_edge_new)
  next
    assume "x = length (edge_heap s)" "y < length (edge_heap s)"
    then show ?thesis using same none by (simp add: add_edge_new) metis
  next
    assume "x = length (edge_heap s)" "y = length (edge_heap s)"
    then show ?thesis by simp
  qed
qed

lemma slots_ok_add_edge:
  assumes ok: "slots_ok s" and k: "k < length (triangle_heap s)"
    and sub: "{a, b} \<subseteq> corners (triangle_heap s ! k)"
  shows "slots_ok (add_edge a b k sw s)"
  unfolding slots_ok_def
proof (intro allI impI)
  fix x
  let ?s = "add_edge a b k sw s"
  assume "x < length (edge_heap ?s)"
  then have x: "x < Suc (length (edge_heap s))" by simp
  show "triangle0 (edge_heap ?s ! x) \<noteq> None \<and>
        triangle0 (edge_heap ?s ! x) \<noteq> triangle1 (edge_heap ?s ! x) \<and>
        (\<forall>t \<in> slots (edge_heap ?s ! x).
           t < length (triangle_heap ?s) \<and>
           endpoints (edge_heap ?s ! x) \<subseteq> corners (triangle_heap ?s ! t))"
  proof (rule less_Suc_cases[OF x])
    assume old: "x < length (edge_heap s)"
    then show ?thesis using ok unfolding slots_ok_def by simp
  next
    assume new: "x = length (edge_heap s)"
    show ?thesis unfolding new using k sub by (simp add: add_edge_new)
  qed
qed

lemma types_ok_add_edge:
  assumes ok: "types_ok s" and q: "queues_ok s"
  shows "types_ok (add_edge a b k sw s)"
  unfolding types_ok_def
proof (intro allI impI)
  fix x
  let ?s = "add_edge a b k sw s"
  assume "x < length (edge_heap ?s)"
  then have x: "x < Suc (length (edge_heap s))" by simp
  show "(etype (edge_heap ?s ! x) = Inner \<longleftrightarrow> triangle1 (edge_heap ?s ! x) \<noteq> None) \<and>
        (etype (edge_heap ?s ! x) = Border \<longleftrightarrow> x \<in> set (border_edges ?s))"
  proof (rule less_Suc_cases[OF x])
    assume old: "x < length (edge_heap s)"
    then show ?thesis using ok unfolding types_ok_def by simp
  next
    assume new: "x = length (edge_heap s)"
    have "length (edge_heap s) \<notin> set (border_edges s)"
      using q unfolding queues_ok_def by auto
    then show ?thesis unfolding new by (simp add: add_edge_new)
  qed
qed

lemma linked_add_edge:
  assumes l: "linked s u v t"
  shows "linked (add_edge a b k sw s) u v t"
proof -
  from l obtain x where x: "x < length (edge_heap s)"
    and ends: "endpoints (edge_heap s ! x) = {u, v}" and t: "t \<in> slots (edge_heap s ! x)"
    unfolding linked_def by blast
  then have "x < length (edge_heap (add_edge a b k sw s)) \<and>
     endpoints (edge_heap (add_edge a b k sw s) ! x) = {u, v} \<and>
     t \<in> slots (edge_heap (add_edge a b k sw s) ! x)"
    by simp
  then show ?thesis unfolding linked_def by blast
qed

lemma triangle_ok_add_edge:
  assumes ok: "triangle_ok s t"
  shows "triangle_ok (add_edge a b k sw s) t"
  using ok linked_add_edge unfolding triangle_ok_def
  by (simp only: add_edge_simps) blast

lemma triangles_ok_add_edge:
  assumes ok: "triangles_ok s"
  shows "triangles_ok (add_edge a b k sw s)"
  using ok triangle_ok_add_edge unfolding triangles_ok_def
  by (simp only: add_edge_simps) blast

lemma store_ok_add_edge:
  assumes ok: "store_ok s" and a: "a < length (vertices s)" and b: "b < length (vertices s)"
    and ab: "a \<noteq> b"
    and none: "\<forall>e < length (edge_heap s). endpoints (edge_heap s ! e) \<noteq> {a, b}"
    and k: "k < length (triangle_heap s)"
    and sub: "{a, b} \<subseteq> corners (triangle_heap s ! k)"
  shows "store_ok (add_edge a b k sw s)"
proof -
  have "queues_ok (add_edge a b k sw s)"
    using ok by (auto simp: store_ok_def queues_ok_def)
  moreover have "index_ok (add_edge a b k sw s)"
    using ok by (simp add: store_ok_def index_ok_def)
  ultimately show ?thesis
    using ok a b ab none k sub
    by (simp add: store_ok_def edges_ok_add_edge vertices_ok_add_edge unique_edges_add_edge
        slots_ok_add_edge types_ok_add_edge triangles_ok_add_edge)
qed

subsection \<open>One side of a new triangle\<close>

lemma AddAdjacentTriangle_second:
  assumes "triangle0 e \<noteq> None" "triangle0 e \<noteq> Some k" "triangle1 e = None"
  shows "AddAdjacentTriangle ar vs ts k e = Inr (e\<lparr>triangle1 := Some k, etype := Inner\<rparr>)"
  using assms by (auto simp: AddAdjacentTriangle_def)

lemma AddAdjacentTriangle_new:
  "\<exists>sw. AddAdjacentTriangle ar vs ts k (new_edge a b) =
     Inr \<lparr>source = (if sw then b else a), target = (if sw then a else b),
          triangle0 = Some k, triangle1 = None, etype = Front\<rparr>"
proof -
  have "\<exists>opp. GetOppositeVertex ts (new_edge a b\<lparr>triangle0 := Some k, etype := Front\<rparr>)
      = Some opp"
    by (simp add: GetOppositeVertex_def)
  then obtain opp where opp:
    "GetOppositeVertex ts (new_edge a b\<lparr>triangle0 := Some k, etype := Front\<rparr>) = Some opp"
    by blast
  show ?thesis
  proof (cases "AddAdjacentTriangle ar vs ts k (new_edge a b) =
     Inr \<lparr>source = a, target = b, triangle0 = Some k, triangle1 = None, etype = Front\<rparr>")
    case True
    then show ?thesis by (intro exI[of _ False]) simp
  next
    case False
    then have "AddAdjacentTriangle ar vs ts k (new_edge a b) =
     Inr \<lparr>source = b, target = a, triangle0 = Some k, triangle1 = None, etype = Front\<rparr>"
      using opp by (auto simp: AddAdjacentTriangle_def new_edge_def Let_def split: if_splits)
    then show ?thesis by (intro exI[of _ True]) simp
  qed
qed

lemma insert_edge_member:
  "v < length vs \<Longrightarrow> e \<in> set (edges (vs ! v)) \<Longrightarrow> insert_edge v e vs = vs"
  by (simp add: insert_edge_def List.insert_def)

lemma CreateTriangle_side_existing:
  assumes ok: "store_ok s" and a: "a < length (vertices s)" and b: "b < length (vertices s)"
    and ab: "a \<noteq> b" and e: "e < length (edge_heap s)"
    and ends: "endpoints (edge_heap s ! e) = {a, b}"
    and front: "etype (edge_heap s ! e) = Front"
    and fresh: "k \<notin> slots (edge_heap s ! e)"
  shows "CreateTriangle_side ar k a b s = Inr (fill_second e k s)"
proof -
  from ok have E: "edges_ok s" and V: "vertices_ok s" and U: "unique_edges s"
    by (simp_all add: store_ok_def)
  have g: "GetLinkingEdge s a b = Some e"
    by (rule GetLinkingEdge_complete[OF E V U a b ab e ends])
  from ok e front have t1: "triangle1 (edge_heap s ! e) = None"
    by (auto simp: store_ok_def types_ok_def)
  from ok e have t0: "triangle0 (edge_heap s ! e) \<noteq> None"
    by (auto simp: store_ok_def slots_ok_def)
  from fresh have t0k: "triangle0 (edge_heap s ! e) \<noteq> Some k"
    by (auto simp: slots_def)
  from E e ends have ina: "e \<in> set (edges (vertices s ! a))"
    and inb: "e \<in> set (edges (vertices s ! b))"
    unfolding edges_ok_def endpoints_pair by auto
  have ins: "insert_edge b e (insert_edge a e (vertices s)) = vertices s"
    using a b ina inb by (simp add: insert_edge_member)
  show ?thesis
    unfolding CreateTriangle_side_def g
    by (simp add: AddAdjacentTriangle_second[OF t0 t0k t1] ins fill_second_def)
qed

lemma CreateTriangle_side_new:
  assumes ok: "store_ok s" and a: "a < length (vertices s)" and b: "b < length (vertices s)"
    and ab: "a \<noteq> b"
    and none: "\<forall>e < length (edge_heap s). endpoints (edge_heap s ! e) \<noteq> {a, b}"
  shows "\<exists>sw. CreateTriangle_side ar k a b s = Inr (add_edge a b k sw s)"
proof -
  from ok have E: "edges_ok s" and V: "vertices_ok s" and U: "unique_edges s"
    by (simp_all add: store_ok_def)
  have g: "GetLinkingEdge s a b = None"
    using GetLinkingEdge_None_iff[OF E V U a b ab] none by simp
  obtain sw where add: "AddAdjacentTriangle ar (vertices s) (triangle_heap s) k (new_edge a b) =
     Inr \<lparr>source = (if sw then b else a), target = (if sw then a else b),
          triangle0 = Some k, triangle1 = None, etype = Front\<rparr>"
    using AddAdjacentTriangle_new by blast
  have "CreateTriangle_side ar k a b s = Inr (add_edge a b k sw s)"
    unfolding CreateTriangle_side_def g
    by (simp add: add add_edge_def)
  then show ?thesis ..
qed

lemma side_frame_fill_second:
  assumes ok: "store_ok s" and a: "a < length (vertices s)" and b: "b < length (vertices s)"
    and e: "e < length (edge_heap s)"
    and ends: "endpoints (edge_heap s ! e) = {a, b}"
    and front: "etype (edge_heap s ! e) = Front"
  shows "side_frame k a b s (fill_second e k s)"
proof -
  from ok e front have t1: "triangle1 (edge_heap s ! e) = None"
    by (auto simp: store_ok_def types_ok_def)
  from ok e ends have ina: "e \<in> set (edges (vertices s ! a))"
    and inb: "e \<in> set (edges (vertices s ! b))"
    unfolding store_ok_def edges_ok_def endpoints_pair by auto
  have ne: "\<forall>v < length (vertices s). v = a \<or> v = b \<longrightarrow> edges (vertices s ! v) \<noteq> []"
    using ina inb by auto
  have 1: "\<forall>x < length (edge_heap s).
       (endpoints (edge_heap s ! x) \<noteq> {a, b} \<longrightarrow>
          edge_heap (fill_second e k s) ! x = edge_heap s ! x) \<and>
       endpoints (edge_heap (fill_second e k s) ! x) = endpoints (edge_heap s ! x) \<and>
       slots (edge_heap s ! x) \<subseteq> slots (edge_heap (fill_second e k s) ! x)"
    using ends t1 by (auto simp: fill_second_nth slots_fill)
  have 2: "\<exists>x < length (edge_heap (fill_second e k s)).
       endpoints (edge_heap (fill_second e k s) ! x) = {a, b} \<and>
       k \<in> slots (edge_heap (fill_second e k s) ! x)"
    using e ends t1 by (intro exI[of _ e]) (simp add: fill_second_slots)
  show ?thesis
    unfolding side_frame_def using 1 2 ne by simp
qed

lemma side_frame_add_edge:
  assumes a: "a < length (vertices s)" and b: "b < length (vertices s)"
  shows "side_frame k a b s (add_edge a b k sw s)"
proof -
  have 2: "\<exists>x < length (edge_heap (add_edge a b k sw s)).
       endpoints (edge_heap (add_edge a b k sw s) ! x) = {a, b} \<and>
       k \<in> slots (edge_heap (add_edge a b k sw s) ! x)"
    by (intro exI[of _ "length (edge_heap s)"]) (simp add: add_edge_new)
  have 3: "\<forall>x < length (edge_heap (add_edge a b k sw s)).
       length (edge_heap s) \<le> x \<longrightarrow> endpoints (edge_heap (add_edge a b k sw s) ! x) = {a, b}"
    by (auto simp: less_Suc_eq add_edge_new)
  have 4: "\<forall>v < length (vertices s).
       vtype (vertices (add_edge a b k sw s) ! v) = vtype (vertices s ! v) \<and>
       point (vertices (add_edge a b k sw s) ! v) = point (vertices s ! v) \<and>
       normal (vertices (add_edge a b k sw s) ! v) = normal (vertices s ! v) \<and>
       (v \<noteq> a \<and> v \<noteq> b \<longrightarrow> edges (vertices (add_edge a b k sw s) ! v) = edges (vertices s ! v)) \<and>
       (v = a \<or> v = b \<longrightarrow> edges (vertices (add_edge a b k sw s) ! v) \<noteq> [])"
  proof (intro allI impI)
    fix v assume v: "v < length (vertices s)"
    show "vtype (vertices (add_edge a b k sw s) ! v) = vtype (vertices s ! v) \<and>
       point (vertices (add_edge a b k sw s) ! v) = point (vertices s ! v) \<and>
       normal (vertices (add_edge a b k sw s) ! v) = normal (vertices s ! v) \<and>
       (v \<noteq> a \<and> v \<noteq> b \<longrightarrow> edges (vertices (add_edge a b k sw s) ! v) = edges (vertices s ! v)) \<and>
       (v = a \<or> v = b \<longrightarrow> edges (vertices (add_edge a b k sw s) ! v) \<noteq> [])"
      using add_edge_vertex(1,2,3,5,6)[OF v, of a b k sw] by blast
  qed
  show ?thesis
    unfolding side_frame_def using 2 3 4 by simp
qed

text \<open>One side: the edge between \<open>a\<close> and \<open>b\<close>, if there is one, is a front edge that does
  not hold the triangle yet.\<close>

lemma CreateTriangle_side_ok:
  assumes ok: "store_ok s" and a: "a < length (vertices s)" and b: "b < length (vertices s)"
    and ab: "a \<noteq> b" and k: "k < length (triangle_heap s)"
    and sub: "{a, b} \<subseteq> corners (triangle_heap s ! k)"
    and guard: "\<forall>e < length (edge_heap s). endpoints (edge_heap s ! e) = {a, b} \<longrightarrow>
                  etype (edge_heap s ! e) = Front \<and> k \<notin> slots (edge_heap s ! e)"
  shows "\<exists>s'. CreateTriangle_side ar k a b s = Inr s' \<and> store_ok s' \<and> side_frame k a b s s'"
proof (cases "\<exists>e < length (edge_heap s). endpoints (edge_heap s ! e) = {a, b}")
  case True
  then obtain e where e: "e < length (edge_heap s)" and ends: "endpoints (edge_heap s ! e) = {a, b}"
    by blast
  with guard have front: "etype (edge_heap s ! e) = Front" and fresh: "k \<notin> slots (edge_heap s ! e)"
    by blast+
  have "CreateTriangle_side ar k a b s = Inr (fill_second e k s)"
    by (rule CreateTriangle_side_existing[OF ok a b ab e ends front fresh])
  moreover have "store_ok (fill_second e k s)"
    using sub ends by (intro store_ok_fill_second[OF ok e front k fresh]) simp
  moreover have "side_frame k a b s (fill_second e k s)"
    by (rule side_frame_fill_second[OF ok a b e ends front])
  ultimately show ?thesis by blast
next
  case False
  then have none: "\<forall>e < length (edge_heap s). endpoints (edge_heap s ! e) \<noteq> {a, b}" by blast
  obtain sw where "CreateTriangle_side ar k a b s = Inr (add_edge a b k sw s)"
    using CreateTriangle_side_new[OF ok a b ab none] by blast
  moreover have "store_ok (add_edge a b k sw s)"
    by (rule store_ok_add_edge[OF ok a b ab none k sub])
  moreover have "side_frame k a b s (add_edge a b k sw s)"
    by (rule side_frame_add_edge[OF a b])
  ultimately show ?thesis by blast
qed

subsection \<open>The three sides of a new triangle\<close>

lemma side_frame_sides: "side_frame k a b s s' \<Longrightarrow> sides_frame k {{a, b}} s s'"
  unfolding side_frame_def sides_frame_def same_rest_def frame_vertices_def frame_edges_def
    frame_new_def frame_linked_def
  by simp

lemma sides_frameD:
  assumes "sides_frame k P s s'"
  shows "triangle_heap s' = triangle_heap s"
    and "edge_front s' = edge_front s"
    and "border_edges s' = border_edges s"
    and "mesh_triangles s' = mesh_triangles s"
    and "mesh_triangle_normals s' = mesh_triangle_normals s"
    and "SearchRadius s' = SearchRadius s"
    and "has_normals s' = has_normals s"
    and "length (vertices s') = length (vertices s)"
    and "length (edge_heap s) \<le> length (edge_heap s')"
proof -
  from assms have "same_rest s s'" by (simp add: sides_frame_def)
  then show "triangle_heap s' = triangle_heap s"
    and "edge_front s' = edge_front s"
    and "border_edges s' = border_edges s"
    and "mesh_triangles s' = mesh_triangles s"
    and "mesh_triangle_normals s' = mesh_triangle_normals s"
    and "SearchRadius s' = SearchRadius s"
    and "has_normals s' = has_normals s"
    and "length (vertices s') = length (vertices s)"
    and "length (edge_heap s) \<le> length (edge_heap s')"
    by (simp_all add: same_rest_def)
qed

lemma sides_frame_vertex:
  assumes "sides_frame k P s s'" and "v < length (vertices s)"
  shows "vtype (vertices s' ! v) = vtype (vertices s ! v)"
    and "point (vertices s' ! v) = point (vertices s ! v)"
    and "normal (vertices s' ! v) = normal (vertices s ! v)"
    and "v \<notin> \<Union>P \<Longrightarrow> edges (vertices s' ! v) = edges (vertices s ! v)"
    and "v \<in> \<Union>P \<Longrightarrow> edges (vertices s' ! v) \<noteq> []"
proof -
  from assms(1) have "frame_vertices P s s'" by (simp add: sides_frame_def)
  with assms(2) have *: "vtype (vertices s' ! v) = vtype (vertices s ! v) \<and>
       point (vertices s' ! v) = point (vertices s ! v) \<and>
       normal (vertices s' ! v) = normal (vertices s ! v) \<and>
       (v \<notin> \<Union>P \<longrightarrow> edges (vertices s' ! v) = edges (vertices s ! v)) \<and>
       (v \<in> \<Union>P \<longrightarrow> edges (vertices s' ! v) \<noteq> [])"
    unfolding frame_vertices_def by blast
  show "vtype (vertices s' ! v) = vtype (vertices s ! v)"
    and "point (vertices s' ! v) = point (vertices s ! v)"
    and "normal (vertices s' ! v) = normal (vertices s ! v)"
    and "v \<notin> \<Union>P \<Longrightarrow> edges (vertices s' ! v) = edges (vertices s ! v)"
    and "v \<in> \<Union>P \<Longrightarrow> edges (vertices s' ! v) \<noteq> []"
    using * by simp_all
qed

lemma sides_frame_edge:
  assumes "sides_frame k P s s'" and "e < length (edge_heap s)"
  shows "endpoints (edge_heap s ! e) \<notin> P \<Longrightarrow> edge_heap s' ! e = edge_heap s ! e"
    and "endpoints (edge_heap s' ! e) = endpoints (edge_heap s ! e)"
    and "slots (edge_heap s ! e) \<subseteq> slots (edge_heap s' ! e)"
proof -
  from assms(1) have "frame_edges P s s'" by (simp add: sides_frame_def)
  with assms(2) have *: "(endpoints (edge_heap s ! e) \<notin> P \<longrightarrow> edge_heap s' ! e = edge_heap s ! e) \<and>
       endpoints (edge_heap s' ! e) = endpoints (edge_heap s ! e) \<and>
       slots (edge_heap s ! e) \<subseteq> slots (edge_heap s' ! e)"
    unfolding frame_edges_def by blast
  show "endpoints (edge_heap s ! e) \<notin> P \<Longrightarrow> edge_heap s' ! e = edge_heap s ! e"
    and "endpoints (edge_heap s' ! e) = endpoints (edge_heap s ! e)"
    and "slots (edge_heap s ! e) \<subseteq> slots (edge_heap s' ! e)"
    using * by simp_all
qed

lemma sides_frame_new:
  assumes "sides_frame k P s s'" and "e < length (edge_heap s')"
    and "length (edge_heap s) \<le> e"
  shows "endpoints (edge_heap s' ! e) \<in> P"
proof -
  from assms(1) have "frame_new P s s'" by (simp add: sides_frame_def)
  with assms(2,3) show ?thesis unfolding frame_new_def by blast
qed

lemma sides_frame_linked:
  assumes "sides_frame k P s s'" and "p \<in> P"
  shows "\<exists>e < length (edge_heap s').
       endpoints (edge_heap s' ! e) = p \<and> k \<in> slots (edge_heap s' ! e)"
proof -
  from assms(1) have "frame_linked k P s'" by (simp add: sides_frame_def)
  with assms(2) show ?thesis unfolding frame_linked_def by blast
qed

lemma sides_frameI:
  assumes "triangle_heap s' = triangle_heap s"
    and "edge_front s' = edge_front s"
    and "border_edges s' = border_edges s"
    and "mesh_triangles s' = mesh_triangles s"
    and "mesh_triangle_normals s' = mesh_triangle_normals s"
    and "SearchRadius s' = SearchRadius s"
    and "has_normals s' = has_normals s"
    and "length (vertices s') = length (vertices s)"
    and "length (edge_heap s) \<le> length (edge_heap s')"
    and "\<forall>v < length (vertices s).
       vtype (vertices s' ! v) = vtype (vertices s ! v) \<and>
       point (vertices s' ! v) = point (vertices s ! v) \<and>
       normal (vertices s' ! v) = normal (vertices s ! v) \<and>
       (v \<notin> \<Union>P \<longrightarrow> edges (vertices s' ! v) = edges (vertices s ! v)) \<and>
       (v \<in> \<Union>P \<longrightarrow> edges (vertices s' ! v) \<noteq> [])"
    and "\<forall>e < length (edge_heap s).
       (endpoints (edge_heap s ! e) \<notin> P \<longrightarrow> edge_heap s' ! e = edge_heap s ! e) \<and>
       endpoints (edge_heap s' ! e) = endpoints (edge_heap s ! e) \<and>
       slots (edge_heap s ! e) \<subseteq> slots (edge_heap s' ! e)"
    and "\<forall>e < length (edge_heap s').
       length (edge_heap s) \<le> e \<longrightarrow> endpoints (edge_heap s' ! e) \<in> P"
    and "\<forall>p \<in> P. \<exists>e < length (edge_heap s').
       endpoints (edge_heap s' ! e) = p \<and> k \<in> slots (edge_heap s' ! e)"
  shows "sides_frame k P s s'"
proof -
  have "same_rest s s'" unfolding same_rest_def using assms(1-9) by simp
  moreover have "frame_vertices P s s'" unfolding frame_vertices_def by (rule assms(10))
  moreover have "frame_edges P s s'" unfolding frame_edges_def by (rule assms(11))
  moreover have "frame_new P s s'" unfolding frame_new_def by (rule assms(12))
  moreover have "frame_linked k P s'" unfolding frame_linked_def by (rule assms(13))
  ultimately show ?thesis by (simp add: sides_frame_def)
qed

lemma sides_frame_trans:
  assumes 1: "sides_frame k P s s1" and 2: "sides_frame k Q s1 s2"
  shows "sides_frame k (P \<union> Q) s s2"
proof (rule sides_frameI)
  note D1 = sides_frameD[OF 1] and D2 = sides_frameD[OF 2]
  show "triangle_heap s2 = triangle_heap s" using D1(1) D2(1) by simp
  show "edge_front s2 = edge_front s" using D1(2) D2(2) by simp
  show "border_edges s2 = border_edges s" using D1(3) D2(3) by simp
  show "mesh_triangles s2 = mesh_triangles s" using D1(4) D2(4) by simp
  show "mesh_triangle_normals s2 = mesh_triangle_normals s" using D1(5) D2(5) by simp
  show "SearchRadius s2 = SearchRadius s" using D1(6) D2(6) by simp
  show "has_normals s2 = has_normals s" using D1(7) D2(7) by simp
  show "length (vertices s2) = length (vertices s)" using D1(8) D2(8) by simp
  show "length (edge_heap s) \<le> length (edge_heap s2)" using D1(9) D2(9) by simp
  show "\<forall>v < length (vertices s).
       vtype (vertices s2 ! v) = vtype (vertices s ! v) \<and>
       point (vertices s2 ! v) = point (vertices s ! v) \<and>
       normal (vertices s2 ! v) = normal (vertices s ! v) \<and>
       (v \<notin> \<Union>(P \<union> Q) \<longrightarrow> edges (vertices s2 ! v) = edges (vertices s ! v)) \<and>
       (v \<in> \<Union>(P \<union> Q) \<longrightarrow> edges (vertices s2 ! v) \<noteq> [])"
  proof (intro allI impI)
    fix v assume v: "v < length (vertices s)"
    then have v1: "v < length (vertices s1)" using D1(8) by simp
    note a = sides_frame_vertex[OF 1 v] and b = sides_frame_vertex[OF 2 v1]
    have e1: "v \<notin> \<Union>(P \<union> Q) \<longrightarrow> edges (vertices s2 ! v) = edges (vertices s ! v)"
      using a(4) b(4) by simp
    have e2: "v \<in> \<Union>(P \<union> Q) \<longrightarrow> edges (vertices s2 ! v) \<noteq> []"
    proof
      assume in_: "v \<in> \<Union>(P \<union> Q)"
      show "edges (vertices s2 ! v) \<noteq> []"
      proof (cases "v \<in> \<Union>Q")
        case True
        then show ?thesis by (rule b(5))
      next
        case False
        with in_ have "v \<in> \<Union>P" by blast
        then have "edges (vertices s1 ! v) \<noteq> []" by (rule a(5))
        with b(4)[OF False] show ?thesis by simp
      qed
    qed
    show "vtype (vertices s2 ! v) = vtype (vertices s ! v) \<and>
       point (vertices s2 ! v) = point (vertices s ! v) \<and>
       normal (vertices s2 ! v) = normal (vertices s ! v) \<and>
       (v \<notin> \<Union>(P \<union> Q) \<longrightarrow> edges (vertices s2 ! v) = edges (vertices s ! v)) \<and>
       (v \<in> \<Union>(P \<union> Q) \<longrightarrow> edges (vertices s2 ! v) \<noteq> [])"
      using a(1,2,3) b(1,2,3) e1 e2 by simp
  qed
  show "\<forall>e < length (edge_heap s).
       (endpoints (edge_heap s ! e) \<notin> P \<union> Q \<longrightarrow> edge_heap s2 ! e = edge_heap s ! e) \<and>
       endpoints (edge_heap s2 ! e) = endpoints (edge_heap s ! e) \<and>
       slots (edge_heap s ! e) \<subseteq> slots (edge_heap s2 ! e)"
  proof (intro allI impI)
    fix e assume e: "e < length (edge_heap s)"
    then have e1: "e < length (edge_heap s1)" using D1(9) by simp
    note a = sides_frame_edge[OF 1 e] and b = sides_frame_edge[OF 2 e1]
    have x: "endpoints (edge_heap s ! e) \<notin> P \<union> Q \<longrightarrow> edge_heap s2 ! e = edge_heap s ! e"
      using a(1) a(2) b(1) by simp
    show "(endpoints (edge_heap s ! e) \<notin> P \<union> Q \<longrightarrow> edge_heap s2 ! e = edge_heap s ! e) \<and>
       endpoints (edge_heap s2 ! e) = endpoints (edge_heap s ! e) \<and>
       slots (edge_heap s ! e) \<subseteq> slots (edge_heap s2 ! e)"
      using x a(2,3) b(2,3) by auto
  qed
  show "\<forall>e < length (edge_heap s2).
       length (edge_heap s) \<le> e \<longrightarrow> endpoints (edge_heap s2 ! e) \<in> P \<union> Q"
  proof (intro allI impI)
    fix e assume e: "e < length (edge_heap s2)" and ge: "length (edge_heap s) \<le> e"
    show "endpoints (edge_heap s2 ! e) \<in> P \<union> Q"
    proof (cases "length (edge_heap s1) \<le> e")
      case True
      then show ?thesis using sides_frame_new[OF 2 e] by simp
    next
      case False
      then have e1: "e < length (edge_heap s1)" by simp
      have "endpoints (edge_heap s1 ! e) \<in> P" by (rule sides_frame_new[OF 1 e1 ge])
      then show ?thesis using sides_frame_edge(2)[OF 2 e1] by simp
    qed
  qed
  show "\<forall>p \<in> P \<union> Q. \<exists>e < length (edge_heap s2).
       endpoints (edge_heap s2 ! e) = p \<and> k \<in> slots (edge_heap s2 ! e)"
  proof
    fix p assume "p \<in> P \<union> Q"
    then show "\<exists>e < length (edge_heap s2).
       endpoints (edge_heap s2 ! e) = p \<and> k \<in> slots (edge_heap s2 ! e)"
    proof
      assume "p \<in> Q"
      then show ?thesis by (rule sides_frame_linked[OF 2])
    next
      assume "p \<in> P"
      then obtain e where e1: "e < length (edge_heap s1)"
        and p: "endpoints (edge_heap s1 ! e) = p" and k: "k \<in> slots (edge_heap s1 ! e)"
        using sides_frame_linked[OF 1] by blast
      have "e < length (edge_heap s2)" using e1 D2(9) by simp
      moreover have "endpoints (edge_heap s2 ! e) = p"
        using sides_frame_edge(2)[OF 2 e1] p by simp
      moreover have "k \<in> slots (edge_heap s2 ! e)"
        using sides_frame_edge(3)[OF 2 e1] k by blast
      ultimately show ?thesis by blast
    qed
  qed
qed

lemma guard_transfer:
  assumes f: "sides_frame k P s s1" and p: "p \<notin> P"
    and g: "\<forall>e < length (edge_heap s). endpoints (edge_heap s ! e) = p \<longrightarrow> G (edge_heap s ! e)"
  shows "\<forall>e < length (edge_heap s1). endpoints (edge_heap s1 ! e) = p \<longrightarrow> G (edge_heap s1 ! e)"
proof (intro allI impI)
  fix e assume e1: "e < length (edge_heap s1)" and ends: "endpoints (edge_heap s1 ! e) = p"
  have e: "e < length (edge_heap s)"
  proof (rule ccontr)
    assume "\<not> e < length (edge_heap s)"
    then have "length (edge_heap s) \<le> e" by simp
    from sides_frame_new[OF f e1 this] ends p show False by simp
  qed
  have same: "endpoints (edge_heap s ! e) = p"
    using sides_frame_edge(2)[OF f e] ends by simp
  then have "edge_heap s1 ! e = edge_heap s ! e"
    using sides_frame_edge(1)[OF f e] p by simp
  with g e same show "G (edge_heap s1 ! e)" by simp
qed

lemma pairs_distinct:
  assumes "v0 \<noteq> v1" "v1 \<noteq> v2" "v2 \<noteq> (v0::nat)"
  shows "{v1, v2} \<notin> {{v0, v1}}" and "{v2, v0} \<notin> {{v0, v1}, {v1, v2}}"
  using assms by (auto simp: doubleton_eq_iff)

lemma CreateTriangle_sides:
  assumes ok: "store_ok s"
    and v0: "v0 < length (vertices s)" and v1: "v1 < length (vertices s)"
    and v2: "v2 < length (vertices s)"
    and d01: "v0 \<noteq> v1" and d12: "v1 \<noteq> v2" and d20: "v2 \<noteq> v0"
    and k: "k < length (triangle_heap s)"
    and c: "corners (triangle_heap s ! k) = {v0, v1, v2}"
    and g01: "\<forall>e < length (edge_heap s). endpoints (edge_heap s ! e) = {v0, v1} \<longrightarrow>
                etype (edge_heap s ! e) = Front \<and> k \<notin> slots (edge_heap s ! e)"
    and g12: "\<forall>e < length (edge_heap s). endpoints (edge_heap s ! e) = {v1, v2} \<longrightarrow>
                etype (edge_heap s ! e) = Front \<and> k \<notin> slots (edge_heap s ! e)"
    and g20: "\<forall>e < length (edge_heap s). endpoints (edge_heap s ! e) = {v2, v0} \<longrightarrow>
                etype (edge_heap s ! e) = Front \<and> k \<notin> slots (edge_heap s ! e)"
  shows "\<exists>s1 s2 s3. CreateTriangle_side ar k v0 v1 s = Inr s1 \<and>
           CreateTriangle_side ar k v1 v2 s1 = Inr s2 \<and>
           CreateTriangle_side ar k v2 v0 s2 = Inr s3 \<and>
           store_ok s3 \<and> sides_frame k {{v0, v1}, {v1, v2}, {v2, v0}} s s3"
proof -
  have sub01: "{v0, v1} \<subseteq> corners (triangle_heap s ! k)" using c by simp
  obtain s1 where s1: "CreateTriangle_side ar k v0 v1 s = Inr s1" and ok1: "store_ok s1"
    and f1: "side_frame k v0 v1 s s1"
    using CreateTriangle_side_ok[OF ok v0 v1 d01 k sub01 g01] by blast
  have F1: "sides_frame k {{v0, v1}} s s1" by (rule side_frame_sides[OF f1])
  note D1 = sides_frameD[OF F1]
  have g12': "\<forall>e < length (edge_heap s1). endpoints (edge_heap s1 ! e) = {v1, v2} \<longrightarrow>
                etype (edge_heap s1 ! e) = Front \<and> k \<notin> slots (edge_heap s1 ! e)"
    by (rule guard_transfer[OF F1 pairs_distinct(1)[OF d01 d12 d20] g12])
  have sub12: "{v1, v2} \<subseteq> corners (triangle_heap s1 ! k)" using c D1(1) by simp
  have v1': "v1 < length (vertices s1)" and v2': "v2 < length (vertices s1)"
    and k1: "k < length (triangle_heap s1)"
    using v1 v2 k D1(1,8) by simp_all
  obtain s2 where s2: "CreateTriangle_side ar k v1 v2 s1 = Inr s2" and ok2: "store_ok s2"
    and f2: "side_frame k v1 v2 s1 s2"
    using CreateTriangle_side_ok[OF ok1 v1' v2' d12 k1 sub12 g12'] by blast
  have F2: "sides_frame k ({{v0, v1}} \<union> {{v1, v2}}) s s2"
    by (rule sides_frame_trans[OF F1 side_frame_sides[OF f2]])
  then have F2': "sides_frame k {{v0, v1}, {v1, v2}} s s2"
    by (simp add: insert_commute)
  note D2 = sides_frameD[OF F2']
  have g20': "\<forall>e < length (edge_heap s2). endpoints (edge_heap s2 ! e) = {v2, v0} \<longrightarrow>
                etype (edge_heap s2 ! e) = Front \<and> k \<notin> slots (edge_heap s2 ! e)"
    by (rule guard_transfer[OF F2' pairs_distinct(2)[OF d01 d12 d20] g20])
  have sub20: "{v2, v0} \<subseteq> corners (triangle_heap s2 ! k)" using c D2(1) by simp
  have v2'': "v2 < length (vertices s2)" and v0'': "v0 < length (vertices s2)"
    and k2: "k < length (triangle_heap s2)"
    using v0 v2 k D2(1,8) by simp_all
  obtain s3 where s3: "CreateTriangle_side ar k v2 v0 s2 = Inr s3" and ok3: "store_ok s3"
    and f3: "side_frame k v2 v0 s2 s3"
    using CreateTriangle_side_ok[OF ok2 v2'' v0'' d20 k2 sub20 g20'] by blast
  have F3: "sides_frame k ({{v0, v1}, {v1, v2}} \<union> {{v2, v0}}) s s3"
    by (rule sides_frame_trans[OF F2' side_frame_sides[OF f3]])
  then have "sides_frame k {{v0, v1}, {v1, v2}, {v2, v0}} s s3"
    by (simp add: insert_commute)
  with s1 s2 s3 ok3 show ?thesis by blast
qed

subsection \<open>A new triangle\<close>

lemma store_ok_cong:
  assumes ok: "store_ok s"
    and eq: "edge_heap s' = edge_heap s" "triangle_heap s' = triangle_heap s"
      "mesh_triangles s' = mesh_triangles s" "edge_front s' = edge_front s"
      "border_edges s' = border_edges s" "SearchRadius s' = SearchRadius s"
      "length (vertices s') = length (vertices s)"
    and ed: "\<forall>v < length (vertices s). edges (vertices s' ! v) = edges (vertices s ! v)"
  shows "store_ok s'"
proof -
  have "edges_ok s'"
    using ok ed unfolding store_ok_def edges_ok_def eq by simp
  moreover have "vertices_ok s'"
    using ok ed unfolding store_ok_def vertices_ok_def eq by simp
  moreover have "unique_edges s'"
    using ok unfolding store_ok_def unique_edges_def eq by simp
  moreover have "slots_ok s'"
    using ok unfolding store_ok_def slots_ok_def eq by simp
  moreover have "types_ok s'"
    using ok unfolding store_ok_def types_ok_def eq by simp
  moreover have "triangles_ok s'"
    using ok unfolding store_ok_def triangles_ok_def triangle_ok_def linked_def eq by simp
  moreover have "queues_ok s'"
    using ok unfolding store_ok_def queues_ok_def eq by simp
  moreover have "index_ok s'"
    using ok unfolding store_ok_def index_ok_def eq by simp
  ultimately show ?thesis by (simp add: store_ok_def)
qed

lemma UpdateType_fields [simp]:
  "edges (UpdateType es v) = edges v"
  "point (UpdateType es v) = point v"
  "normal (UpdateType es v) = normal v"
  by (simp_all add: UpdateType_def)

lemma UpdateType_orphan: "vtype (UpdateType es v) = Orphan \<longleftrightarrow> edges v = []"
  by (simp add: UpdateType_def)

lemma update_types_simps [simp]:
  "edge_heap (update_types v s) = edge_heap s"
  "triangle_heap (update_types v s) = triangle_heap s"
  "edge_front (update_types v s) = edge_front s"
  "border_edges (update_types v s) = border_edges s"
  "mesh_triangles (update_types v s) = mesh_triangles s"
  "mesh_triangle_normals (update_types v s) = mesh_triangle_normals s"
  "SearchRadius (update_types v s) = SearchRadius s"
  "has_normals (update_types v s) = has_normals s"
  "length (vertices (update_types v s)) = length (vertices s)"
  by (simp_all add: update_types_def)

lemma update_types_vertex:
  assumes "u < length (vertices s)"
  shows "edges (vertices (update_types v s) ! u) = edges (vertices s ! u)"
    and "point (vertices (update_types v s) ! u) = point (vertices s ! u)"
    and "normal (vertices (update_types v s) ! u) = normal (vertices s ! u)"
    and "u \<noteq> v \<Longrightarrow> vtype (vertices (update_types v s) ! u) = vtype (vertices s ! u)"
    and "u = v \<Longrightarrow> (vtype (vertices (update_types v s) ! u) = Orphan \<longleftrightarrow>
            edges (vertices s ! u) = [])"
  using assms by (cases "u = v"; simp add: update_types_def UpdateType_orphan)+

lemma store_ok_update_types: "store_ok s \<Longrightarrow> store_ok (update_types v s)"
  by (rule store_ok_cong) (auto simp: update_types_vertex)

lemma emit_triangle_simps [simp]:
  "edge_heap (emit_triangle ar v0 v1 v2 s) = edge_heap s"
  "triangle_heap (emit_triangle ar v0 v1 v2 s) = triangle_heap s"
  "edge_front (emit_triangle ar v0 v1 v2 s) = edge_front s"
  "border_edges (emit_triangle ar v0 v1 v2 s) = border_edges s"
  "vertices (emit_triangle ar v0 v1 v2 s) = vertices s"
  "SearchRadius (emit_triangle ar v0 v1 v2 s) = SearchRadius s"
  "has_normals (emit_triangle ar v0 v1 v2 s) = has_normals s"
  "length (mesh_triangles (emit_triangle ar v0 v1 v2 s)) = Suc (length (mesh_triangles s))"
  by (simp_all add: emit_triangle_def Let_def)

lemma emit_triangle_mesh:
  "mesh_triangles (emit_triangle ar v0 v1 v2 s) = mesh_triangles s @ [(v0, v1, v2)] \<or>
   mesh_triangles (emit_triangle ar v0 v1 v2 s) = mesh_triangles s @ [(v0, v2, v1)]"
  by (simp add: emit_triangle_def Let_def)

lemma linked_frame:
  assumes f: "frame_edges P s s'" and len: "length (edge_heap s) \<le> length (edge_heap s')"
    and l: "linked s a b t"
  shows "linked s' a b t"
proof -
  from l obtain e where e: "e < length (edge_heap s)"
    and ends: "endpoints (edge_heap s ! e) = {a, b}" and t: "t \<in> slots (edge_heap s ! e)"
    unfolding linked_def by blast
  from f e have "endpoints (edge_heap s' ! e) = endpoints (edge_heap s ! e)"
    "slots (edge_heap s ! e) \<subseteq> slots (edge_heap s' ! e)"
    unfolding frame_edges_def by blast+
  with e ends t len have "e < length (edge_heap s') \<and> endpoints (edge_heap s' ! e) = {a, b} \<and>
      t \<in> slots (edge_heap s' ! e)"
    by auto
  then show ?thesis unfolding linked_def by blast
qed

lemma triangle_ok_transfer:
  assumes ok: "triangle_ok s t"
    and th: "triangle_heap s' ! t = triangle_heap s ! t"
    and mesh: "mesh_triangles s' ! t = mesh_triangles s ! t"
    and len: "length (vertices s') = length (vertices s)"
    and link: "\<And>a b. linked s a b t \<Longrightarrow> linked s' a b t"
  shows "triangle_ok s' t"
  using ok link unfolding triangle_ok_def th mesh len by blast


lemma linked_cong: "edge_heap s' = edge_heap s \<Longrightarrow> linked s' a b t = linked s a b t"
  by (simp add: linked_def)

lemma store_ok_push_triangle:
  assumes ok: "store_ok s"
  shows "store_ok (s\<lparr>triangle_heap := triangle_heap s @ [T]\<rparr>)"
proof -
  let ?s = "s\<lparr>triangle_heap := triangle_heap s @ [T]\<rparr>"
  have "edges_ok ?s"
    using ok unfolding store_ok_def edges_ok_def by simp
  moreover have "vertices_ok ?s"
    using ok unfolding store_ok_def vertices_ok_def by simp
  moreover have "unique_edges ?s"
    using ok unfolding store_ok_def unique_edges_def by simp
  moreover have "slots_ok ?s"
    using ok unfolding store_ok_def slots_ok_def by (simp add: nth_append less_Suc_eq)
  moreover have "types_ok ?s"
    using ok unfolding store_ok_def types_ok_def by simp
  moreover have "triangles_ok ?s"
  proof -
    from ok have t: "triangles_ok s" by (simp add: store_ok_def)
    then have le: "length (mesh_triangles s) \<le> length (triangle_heap s)"
      by (simp add: triangles_ok_def)
    have same: "\<And>t. t < length (mesh_triangles s) \<Longrightarrow>
        triangle_heap ?s ! t = triangle_heap s ! t"
      using le by (simp add: nth_append)
    have tok: "\<And>t. t < length (mesh_triangles s) \<Longrightarrow> triangle_ok ?s t"
    proof -
      fix t assume tl: "t < length (mesh_triangles s)"
      with t have 1: "triangle_ok s t" by (simp add: triangles_ok_def)
      have 2: "\<And>a b. linked s a b t \<Longrightarrow> linked ?s a b t"
        by (simp add: linked_def)
      show "triangle_ok ?s t"
        by (rule triangle_ok_transfer[OF 1 same[OF tl] _ _ 2]) simp_all
    qed
    show ?thesis
      unfolding triangles_ok_def
    proof (intro conjI allI impI)
      show "length (mesh_triangles ?s) \<le> length (triangle_heap ?s)" using le by simp
    next
      fix t assume "t < length (mesh_triangles ?s)"
      then show "triangle_ok ?s t" using tok by simp
    next
      fix t t' assume a: "t < length (mesh_triangles ?s)" "t' < length (mesh_triangles ?s)"
        "corners (triangle_heap ?s ! t) = corners (triangle_heap ?s ! t')"
      then have "corners (triangle_heap s ! t) = corners (triangle_heap s ! t')"
        using same[of t] same[of t'] by simp
      with a t show "t = t'" by (simp add: triangles_ok_def)
    qed
  qed
  moreover have "queues_ok ?s"
    using ok unfolding store_ok_def queues_ok_def by simp
  moreover have "index_ok ?s"
    using ok unfolding store_ok_def index_ok_def by simp
  ultimately show ?thesis by (simp add: store_ok_def)
qed

lemma store_ok_emit:
  assumes ok: "store_ok s" and t: "triangles_ok (emit_triangle ar v0 v1 v2 s)"
  shows "store_ok (emit_triangle ar v0 v1 v2 s)"
proof -
  let ?s = "emit_triangle ar v0 v1 v2 s"
  have "edges_ok ?s"
    using ok unfolding store_ok_def edges_ok_def by simp
  moreover have "vertices_ok ?s"
    using ok unfolding store_ok_def vertices_ok_def by simp
  moreover have "unique_edges ?s"
    using ok unfolding store_ok_def unique_edges_def by simp
  moreover have "slots_ok ?s"
    using ok unfolding store_ok_def slots_ok_def by simp
  moreover have "types_ok ?s"
    using ok unfolding store_ok_def types_ok_def by simp
  moreover have "queues_ok ?s"
    using ok unfolding store_ok_def queues_ok_def by simp
  moreover have "index_ok ?s"
    using ok unfolding store_ok_def index_ok_def by simp
  ultimately show ?thesis using t by (simp add: store_ok_def)
qed

lemma three_pairs:
  assumes "a \<in> {v0, v1, v2}" "b \<in> {v0, v1, v2}" "a \<noteq> b"
  shows "{a, b} \<in> {{v0, v1}, {v1, v2}, {v2, v0}}"
  using assms by (auto simp: insert_commute)

lemma union_three_pairs: "\<Union>{{v0, v1}, {v1, v2}, {v2, v0}} = {v0, v1, v2}"
  by auto

lemma CreateTriangle_ok:
  assumes ok: "topology_ok s"
    and v0: "v0 < length (vertices s)" and v1: "v1 < length (vertices s)"
    and v2: "v2 < length (vertices s)"
    and d01: "v0 \<noteq> v1" and d12: "v1 \<noteq> v2" and d20: "v2 \<noteq> v0"
    and guard: "\<forall>e < length (edge_heap s).
        endpoints (edge_heap s ! e) \<in> {{v0, v1}, {v1, v2}, {v2, v0}} \<longrightarrow>
        etype (edge_heap s ! e) = Front"
    and fresh: "\<forall>t < length (triangle_heap s). corners (triangle_heap s ! t) \<noteq> {v0, v1, v2}"
  shows "\<exists>s'. CreateTriangle ar v0 v1 v2 center s = Inr s' \<and> topology_ok s' \<and>
           triangle_frame v0 v1 v2 center s s'"
proof -
  define k where "k = length (triangle_heap s)"
  define T where "T = \<lparr>vert0 = v0, vert1 = v1, vert2 = v2, ball_center = center\<rparr>"
  define s0 where "s0 = s\<lparr>triangle_heap := triangle_heap s @ [T]\<rparr>"
  let ?P = "{{v0, v1}, {v1, v2}, {v2, v0}}"
  from ok have sok: "store_ok s" and orph: "orphans_ok s"
    and full: "length (mesh_triangles s) = k"
    by (simp_all add: topology_ok_def k_def)
  have ok0: "store_ok s0" unfolding s0_def by (rule store_ok_push_triangle[OF sok])
  have s0: "edge_heap s0 = edge_heap s" "vertices s0 = vertices s"
    "triangle_heap s0 = triangle_heap s @ [T]" "mesh_triangles s0 = mesh_triangles s"
    "edge_front s0 = edge_front s" "border_edges s0 = border_edges s"
    "SearchRadius s0 = SearchRadius s" "has_normals s0 = has_normals s"
    by (simp_all add: s0_def)
  have k0: "k < length (triangle_heap s0)" by (simp add: s0 k_def)
  have c0: "corners (triangle_heap s0 ! k) = {v0, v1, v2}"
    by (simp add: s0 k_def T_def corners_def)
  have nok: "\<forall>e < length (edge_heap s). k \<notin> slots (edge_heap s ! e)"
  proof (intro allI impI)
    fix e assume "e < length (edge_heap s)"
    with sok have "\<forall>t \<in> slots (edge_heap s ! e). t < length (triangle_heap s)"
      unfolding store_ok_def slots_ok_def by blast
    then show "k \<notin> slots (edge_heap s ! e)" unfolding k_def by blast
  qed
  have g: "\<And>p. p \<in> ?P \<Longrightarrow> \<forall>e < length (edge_heap s0). endpoints (edge_heap s0 ! e) = p \<longrightarrow>
                etype (edge_heap s0 ! e) = Front \<and> k \<notin> slots (edge_heap s0 ! e)"
    using guard nok unfolding s0 by blast
  have g01: "\<forall>e < length (edge_heap s0). endpoints (edge_heap s0 ! e) = {v0, v1} \<longrightarrow>
                etype (edge_heap s0 ! e) = Front \<and> k \<notin> slots (edge_heap s0 ! e)"
    by (rule g) simp
  have g12: "\<forall>e < length (edge_heap s0). endpoints (edge_heap s0 ! e) = {v1, v2} \<longrightarrow>
                etype (edge_heap s0 ! e) = Front \<and> k \<notin> slots (edge_heap s0 ! e)"
    by (rule g) simp
  have g20: "\<forall>e < length (edge_heap s0). endpoints (edge_heap s0 ! e) = {v2, v0} \<longrightarrow>
                etype (edge_heap s0 ! e) = Front \<and> k \<notin> slots (edge_heap s0 ! e)"
    by (rule g) simp
  have v0': "v0 < length (vertices s0)" and v1': "v1 < length (vertices s0)"
    and v2': "v2 < length (vertices s0)"
    using v0 v1 v2 by (simp_all add: s0)
  obtain s1 s2 s3 where side1: "CreateTriangle_side ar k v0 v1 s0 = Inr s1"
    and side2: "CreateTriangle_side ar k v1 v2 s1 = Inr s2"
    and side3: "CreateTriangle_side ar k v2 v0 s2 = Inr s3"
    and ok3: "store_ok s3" and F: "sides_frame k ?P s0 s3"
    using CreateTriangle_sides[OF ok0 v0' v1' v2' d01 d12 d20 k0 c0 g01 g12 g20] by blast
  define s4 where "s4 = update_types v2 (update_types v1 (update_types v0 s3))"
  define s' where "s' = emit_triangle ar v0 v1 v2 s4"
  have res: "CreateTriangle ar v0 v1 v2 center s = Inr s'"
    unfolding CreateTriangle_def Let_def
    using side1[unfolded k_def s0_def T_def] side2[unfolded k_def] side3[unfolded k_def]
    by (simp add: s4_def s'_def)
  note D = sides_frameD[OF F]
  have fe: "frame_edges ?P s0 s3" using F by (simp add: sides_frame_def)
  have ok4: "store_ok s4"
    unfolding s4_def by (intro store_ok_update_types ok3)
  have s4: "edge_heap s4 = edge_heap s3" "triangle_heap s4 = triangle_heap s3"
    "mesh_triangles s4 = mesh_triangles s3" "edge_front s4 = edge_front s3"
    "border_edges s4 = border_edges s3" "SearchRadius s4 = SearchRadius s3"
    "has_normals s4 = has_normals s3" "length (vertices s4) = length (vertices s)"
    using D(8) by (simp_all add: s4_def s0)
  have s': "edge_heap s' = edge_heap s3" "triangle_heap s' = triangle_heap s @ [T]"
    "edge_front s' = edge_front s" "border_edges s' = border_edges s"
    "SearchRadius s' = SearchRadius s" "has_normals s' = has_normals s"
    "length (vertices s') = length (vertices s)" "vertices s' = vertices s4"
    "length (mesh_triangles s') = Suc k"
    using D by (simp_all add: s'_def s4 s0 full)
  have mesh': "mesh_triangles s' = mesh_triangles s @ [(v0, v1, v2)] \<or>
               mesh_triangles s' = mesh_triangles s @ [(v0, v2, v1)]"
    using emit_triangle_mesh[of ar v0 v1 v2 s4] D(4) by (simp add: s'_def s4 s0)
  have len: "length (edge_heap s) \<le> length (edge_heap s')"
    using D(9) by (simp add: s' s0)
  have fe': "frame_edges ?P s s'"
    using fe unfolding frame_edges_def s' s0 .
  have vert4: "\<And>u. u < length (vertices s) \<Longrightarrow>
      edges (vertices s4 ! u) = edges (vertices s3 ! u) \<and>
      point (vertices s4 ! u) = point (vertices s3 ! u) \<and>
      normal (vertices s4 ! u) = normal (vertices s3 ! u) \<and>
      (u \<notin> {v0, v1, v2} \<longrightarrow> vtype (vertices s4 ! u) = vtype (vertices s3 ! u)) \<and>
      (u \<in> {v0, v1, v2} \<longrightarrow> (vtype (vertices s4 ! u) = Orphan \<longleftrightarrow> edges (vertices s3 ! u) = []))"
  proof -
    fix u assume "u < length (vertices s)"
    then have u: "u < length (vertices s3)" using D(8) by (simp add: s0)
    show "edges (vertices s4 ! u) = edges (vertices s3 ! u) \<and>
      point (vertices s4 ! u) = point (vertices s3 ! u) \<and>
      normal (vertices s4 ! u) = normal (vertices s3 ! u) \<and>
      (u \<notin> {v0, v1, v2} \<longrightarrow> vtype (vertices s4 ! u) = vtype (vertices s3 ! u)) \<and>
      (u \<in> {v0, v1, v2} \<longrightarrow> (vtype (vertices s4 ! u) = Orphan \<longleftrightarrow> edges (vertices s3 ! u) = []))"
      unfolding s4_def using u d01 d12 d20
      by (auto simp: update_types_vertex)
  qed
  have tri: "triangles_ok s'"
    unfolding triangles_ok_def
  proof (intro conjI allI impI)
    show "length (mesh_triangles s') \<le> length (triangle_heap s')"
      by (simp add: s' k_def)
  next
    fix t assume "t < length (mesh_triangles s')"
    then have t: "t < Suc k" by (simp add: s')
    show "triangle_ok s' t"
    proof (rule less_Suc_cases[OF t])
      assume tk: "t < k"
      with sok full have 1: "triangle_ok s t"
        by (simp add: store_ok_def triangles_ok_def)
      have 2: "triangle_heap s' ! t = triangle_heap s ! t"
        using tk by (simp add: s' nth_append k_def)
      have 3: "mesh_triangles s' ! t = mesh_triangles s ! t"
        using mesh' tk full by (auto simp: nth_append)
      show ?thesis
        by (rule triangle_ok_transfer[OF 1 2 3 s'(7) linked_frame[OF fe' len]])
    next
      assume tk: "t = k"
      have th: "triangle_heap s' ! k = T" by (simp add: s' k_def)
      have cT: "corners T = {v0, v1, v2}" by (simp add: T_def corners_def)
      have link: "\<And>a b. a \<in> {v0, v1, v2} \<Longrightarrow> b \<in> {v0, v1, v2} \<Longrightarrow> a \<noteq> b \<Longrightarrow> linked s' a b k"
      proof -
        fix a b assume "a \<in> {v0, v1, v2}" "b \<in> {v0, v1, v2}" "a \<noteq> b"
        then have "{a, b} \<in> ?P" by (rule three_pairs)
        from sides_frame_linked[OF F this] show "linked s' a b k"
          unfolding linked_def s' .
      qed
      have m: "mesh_triangles s' ! k = (v0, v1, v2) \<or> mesh_triangles s' ! k = (v0, v2, v1)"
        using mesh' full by (auto simp: nth_append)
      have card: "card {v0, v1, v2} = 3" using d01 d12 d20 by auto
      show ?thesis
        unfolding tk triangle_ok_def th cT
        using v0 v1 v2 card link m by (simp add: s' s4 T_def)
    qed
  next
    fix t t' assume "t < length (mesh_triangles s')" "t' < length (mesh_triangles s')"
      and same: "corners (triangle_heap s' ! t) = corners (triangle_heap s' ! t')"
    then have t: "t < Suc k" and t': "t' < Suc k" by (simp_all add: s')
    have old: "\<And>x. x < k \<Longrightarrow> triangle_heap s' ! x = triangle_heap s ! x"
      by (simp add: s' nth_append k_def)
    have new: "corners (triangle_heap s' ! k) = {v0, v1, v2}"
      by (simp add: s' k_def T_def corners_def)
    show "t = t'"
    proof (rule less_Suc_cases[OF t]; rule less_Suc_cases[OF t'])
      assume "t < k" "t' < k"
      with same sok full show ?thesis
        by (simp add: old store_ok_def triangles_ok_def)
    next
      assume "t < k" "t' = k"
      with same fresh new show ?thesis by (simp add: old k_def)
    next
      assume "t = k" "t' < k"
      with same fresh new show ?thesis by (simp add: old k_def)
    next
      assume "t = k" "t' = k"
      then show ?thesis by simp
    qed
  qed
  have ok': "store_ok s'"
    unfolding s'_def by (rule store_ok_emit[OF ok4 tri[unfolded s'_def]])
  have orph': "orphans_ok s'"
    unfolding orphans_ok_def
  proof (intro allI impI)
    fix u assume "u < length (vertices s')" and o: "vtype (vertices s' ! u) = Orphan"
    then have u: "u < length (vertices s)" by (simp add: s' s4)
    then have u0: "u < length (vertices s0)" by (simp add: s0)
    note V = sides_frame_vertex[OF F u0, unfolded union_three_pairs]
    show "edges (vertices s' ! u) = []"
    proof (cases "u \<in> {v0, v1, v2}")
      case True
      with vert4[OF u] o have "edges (vertices s3 ! u) = []" by (auto simp: s')
      with V(5)[OF True] show ?thesis by simp
    next
      case False
      with vert4[OF u] o V(1) have "vtype (vertices s ! u) = Orphan" by (auto simp: s' s0)
      with orph u have "edges (vertices s ! u) = []" by (simp add: orphans_ok_def)
      with vert4[OF u] V(4)[OF False] show ?thesis by (auto simp: s' s0)
    qed
  qed
  have top: "topology_ok s'"
    using ok' orph' by (simp add: topology_ok_def s'(2,9) k_def)
  have push: "pushed v0 v1 v2 center s s'"
    unfolding pushed_def using mesh' len by (simp add: s'(1-7) T_def)
  have oth: "others_same {v0, v1, v2} s s'"
    unfolding others_same_def
  proof (intro allI impI)
    fix u assume u: "u < length (vertices s)"
    then have u0: "u < length (vertices s0)" by (simp add: s0)
    note V = sides_frame_vertex[OF F u0, unfolded union_three_pairs]
    show "point (vertices s' ! u) = point (vertices s ! u) \<and>
       normal (vertices s' ! u) = normal (vertices s ! u) \<and>
       (u \<notin> {v0, v1, v2} \<longrightarrow>
          edges (vertices s' ! u) = edges (vertices s ! u) \<and>
          vtype (vertices s' ! u) = vtype (vertices s ! u))"
      using vert4[OF u] V(1,2,3,4) by (auto simp: s' s0)
  qed
  have "triangle_frame v0 v1 v2 center s s'"
    using push oth fe' by (simp add: triangle_frame_def)
  with res top show ?thesis by blast
qed

subsection \<open>Changing the classification of an edge\<close>

lemma retype_simps [simp]:
  "vertices (retype e ty s) = vertices s"
  "triangle_heap (retype e ty s) = triangle_heap s"
  "edge_front (retype e ty s) = edge_front s"
  "border_edges (retype e ty s) = border_edges s"
  "mesh_triangles (retype e ty s) = mesh_triangles s"
  "mesh_triangle_normals (retype e ty s) = mesh_triangle_normals s"
  "SearchRadius (retype e ty s) = SearchRadius s"
  "has_normals (retype e ty s) = has_normals s"
  "length (edge_heap (retype e ty s)) = length (edge_heap s)"
  by (simp_all add: retype_def)

lemma retype_nth [simp]:
  assumes "x < length (edge_heap s)"
  shows "source (edge_heap (retype e ty s) ! x) = source (edge_heap s ! x)"
    and "target (edge_heap (retype e ty s) ! x) = target (edge_heap s ! x)"
    and "triangle0 (edge_heap (retype e ty s) ! x) = triangle0 (edge_heap s ! x)"
    and "triangle1 (edge_heap (retype e ty s) ! x) = triangle1 (edge_heap s ! x)"
    and "endpoints (edge_heap (retype e ty s) ! x) = endpoints (edge_heap s ! x)"
    and "slots (edge_heap (retype e ty s) ! x) = slots (edge_heap s ! x)"
    and "etype (edge_heap (retype e ty s) ! x) = (if x = e then ty else etype (edge_heap s ! x))"
  using assms by (cases "x = e"; simp add: retype_def)+

lemma linked_retype [simp]: "linked (retype e ty s) a b t = linked s a b t"
  unfolding linked_def by (metis retype_nth(5,6) retype_simps(9))

lemma triangle_ok_retype [simp]: "triangle_ok (retype e ty s) t = triangle_ok s t"
  by (simp add: triangle_ok_def)

text \<open>Each invariant reads a few fields of the engine only.\<close>

lemma edges_ok_cong:
  "edges_ok s \<Longrightarrow> edge_heap s' = edge_heap s \<Longrightarrow> vertices s' = vertices s \<Longrightarrow> edges_ok s'"
  by (simp add: edges_ok_def)

lemma vertices_ok_cong:
  "vertices_ok s \<Longrightarrow> edge_heap s' = edge_heap s \<Longrightarrow> vertices s' = vertices s \<Longrightarrow>
   vertices_ok s'"
  by (simp add: vertices_ok_def)

lemma unique_edges_cong:
  "unique_edges s \<Longrightarrow> edge_heap s' = edge_heap s \<Longrightarrow> unique_edges s'"
  by (simp add: unique_edges_def)

lemma slots_ok_cong:
  "slots_ok s \<Longrightarrow> edge_heap s' = edge_heap s \<Longrightarrow> triangle_heap s' = triangle_heap s \<Longrightarrow>
   slots_ok s'"
  by (simp add: slots_ok_def)

lemma triangles_ok_cong:
  "triangles_ok s \<Longrightarrow> edge_heap s' = edge_heap s \<Longrightarrow> triangle_heap s' = triangle_heap s \<Longrightarrow>
   mesh_triangles s' = mesh_triangles s \<Longrightarrow> vertices s' = vertices s \<Longrightarrow> triangles_ok s'"
  by (simp add: triangles_ok_def triangle_ok_def linked_def)

lemma index_ok_cong:
  "index_ok s \<Longrightarrow> SearchRadius s' = SearchRadius s \<Longrightarrow> vertices s' = vertices s \<Longrightarrow>
   index_ok s'"
  by (simp add: index_ok_def)

lemma orphans_ok_cong:
  "orphans_ok s \<Longrightarrow> vertices s' = vertices s \<Longrightarrow> orphans_ok s'"
  by (simp add: orphans_ok_def)

lemma topology_ok_rest:
  "topology_ok s \<longleftrightarrow> rest_ok s \<and> types_ok s \<and> queues_ok s"
  by (auto simp: topology_ok_def store_ok_def rest_ok_def)

lemma rest_ok_cong:
  assumes "rest_ok s" "edge_heap s' = edge_heap s" "triangle_heap s' = triangle_heap s"
    "mesh_triangles s' = mesh_triangles s" "vertices s' = vertices s"
    "SearchRadius s' = SearchRadius s"
  shows "rest_ok s'"
proof -
  note a = assms(1)[unfolded rest_ok_def]
  have "edges_ok s'" by (rule edges_ok_cong[of s]) (use a assms in simp_all)
  moreover have "vertices_ok s'" by (rule vertices_ok_cong[of s]) (use a assms in simp_all)
  moreover have "unique_edges s'" by (rule unique_edges_cong[of s]) (use a assms in simp_all)
  moreover have "slots_ok s'" by (rule slots_ok_cong[of s]) (use a assms in simp_all)
  moreover have "triangles_ok s'" by (rule triangles_ok_cong[of s]) (use a assms in simp_all)
  moreover have "index_ok s'" by (rule index_ok_cong[of s]) (use a assms in simp_all)
  moreover have "orphans_ok s'" by (rule orphans_ok_cong[of s]) (use a assms in simp_all)
  ultimately show ?thesis using a assms(3,4) by (simp add: rest_ok_def)
qed

lemma rest_ok_retype:
  assumes "rest_ok s"
  shows "rest_ok (retype e ty s)"
proof -
  have "edges_ok (retype e ty s)" using assms unfolding rest_ok_def edges_ok_def by simp
  moreover have "vertices_ok (retype e ty s)"
    using assms unfolding rest_ok_def vertices_ok_def by auto
  moreover have "unique_edges (retype e ty s)"
    using assms unfolding rest_ok_def unique_edges_def by simp
  moreover have "slots_ok (retype e ty s)" using assms unfolding rest_ok_def slots_ok_def by simp
  moreover have "triangles_ok (retype e ty s)"
    using assms unfolding rest_ok_def triangles_ok_def by simp
  moreover have "index_ok (retype e ty s)" using assms unfolding rest_ok_def index_ok_def by simp
  moreover have "orphans_ok (retype e ty s)"
    using assms unfolding rest_ok_def orphans_ok_def by simp
  ultimately show ?thesis using assms by (simp add: rest_ok_def)
qed

lemma topology_ok_front:
  assumes ok: "topology_ok s" and q: "set q \<subseteq> {..<length (edge_heap s)}"
  shows "topology_ok (s\<lparr>edge_front := q\<rparr>)"
proof -
  have "rest_ok (s\<lparr>edge_front := q\<rparr>)"
    by (rule rest_ok_cong[of s]) (use ok in \<open>simp_all add: topology_ok_rest\<close>)
  moreover have "types_ok (s\<lparr>edge_front := q\<rparr>)"
    using ok unfolding topology_ok_rest types_ok_def by simp
  moreover have "queues_ok (s\<lparr>edge_front := q\<rparr>)"
    using ok q unfolding topology_ok_rest queues_ok_def by simp
  ultimately show ?thesis by (simp add: topology_ok_rest)
qed

lemma mark_border_eq:
  "mark_border edge s = (retype edge Border s)\<lparr>border_edges := border_edges s @ [edge]\<rparr>"
  by (simp add: mark_border_def retype_def)

lemma topology_ok_mark_border:
  assumes ok: "topology_ok s" and e: "edge < length (edge_heap s)"
    and front: "etype (edge_heap s ! edge) = Front"
  shows "topology_ok (mark_border edge s)"
proof -
  let ?s = "mark_border edge s"
  from ok e front have nb: "edge \<notin> set (border_edges s)"
    and t1: "triangle1 (edge_heap s ! edge) = None"
    by (auto simp: topology_ok_rest types_ok_def)
  have "rest_ok (retype edge Border s)"
    by (rule rest_ok_retype) (use ok in \<open>simp add: topology_ok_rest\<close>)
  then have "rest_ok ?s"
    by (rule rest_ok_cong) (simp_all add: mark_border_eq)
  moreover have "types_ok ?s"
    unfolding types_ok_def
  proof (intro allI impI)
    fix x assume "x < length (edge_heap ?s)"
    then have x: "x < length (edge_heap s)" by (simp add: mark_border_eq)
    with ok have old: "etype (edge_heap s ! x) = Inner \<longleftrightarrow> triangle1 (edge_heap s ! x) \<noteq> None"
      "etype (edge_heap s ! x) = Border \<longleftrightarrow> x \<in> set (border_edges s)"
      unfolding topology_ok_rest types_ok_def by blast+
    show "(etype (edge_heap ?s ! x) = Inner \<longleftrightarrow> triangle1 (edge_heap ?s ! x) \<noteq> None) \<and>
          (etype (edge_heap ?s ! x) = Border \<longleftrightarrow> x \<in> set (border_edges ?s))"
      using x old t1 by (cases "x = edge") (simp_all add: mark_border_eq)
  qed
  moreover have "queues_ok ?s"
    using ok e nb unfolding topology_ok_rest queues_ok_def by (simp add: mark_border_eq)
  ultimately show ?thesis by (simp add: topology_ok_rest)
qed

lemma topology_ok_push_front_if_front:
  assumes ok: "topology_ok s" and e: "e < length (edge_heap s)"
  shows "topology_ok (push_front_if_front e s)"
proof (cases "etype (edge_heap s ! e) = Front")
  case True
  have "set (e # edge_front s) \<subseteq> {..<length (edge_heap s)}"
    using ok e by (simp add: topology_ok_rest queues_ok_def)
  from topology_ok_front[OF ok this] True show ?thesis
    by (simp add: push_front_if_front_def)
next
  case False
  then show ?thesis using ok by (simp add: push_front_if_front_def)
qed

subsection \<open>The candidate of a pivot\<close>

lemma FindCandidateVertex_visit_result:
  assumes "fst (FindCandidateVertex_visit ar it s r src tgt opp mp v a indices nbidx acc) = Some (c, ctr)"
  shows "fst acc = Some (c, ctr) \<or> (c = nbidx \<and> c \<noteq> src \<and> c \<noteq> tgt \<and> c \<noteq> opp)"
  using assms unfolding FindCandidateVertex_visit_def Let_def
  by (auto split: if_splits option.splits)

lemma FindCandidateVertex_fold_result:
  assumes "fst (fold (FindCandidateVertex_visit ar it s r src tgt opp mp v a indices) xs acc)
           = Some (c, ctr)"
  shows "fst acc = Some (c, ctr) \<or> (c \<in> set xs \<and> c \<noteq> src \<and> c \<noteq> tgt \<and> c \<noteq> opp)"
  using assms
proof (induction xs arbitrary: acc)
  case Nil
  then show ?case by simp
next
  case (Cons x xs)
  from Cons.IH[of "FindCandidateVertex_visit ar it s r src tgt opp mp v a indices x acc"] Cons.prems
  have "fst (FindCandidateVertex_visit ar it s r src tgt opp mp v a indices x acc) = Some (c, ctr) \<or>
        (c \<in> set xs \<and> c \<noteq> src \<and> c \<noteq> tgt \<and> c \<noteq> opp)"
    by simp
  then show ?case
    using FindCandidateVertex_visit_result[of ar it s r src tgt opp mp v a indices x acc c ctr]
    by auto
qed

lemma GetOppositeVertex_Some:
  "triangle0 e = Some t \<Longrightarrow> \<exists>opp. GetOppositeVertex ts e = Some opp"
  by (simp add: GetOppositeVertex_def)

lemma FindCandidateVertex_total:
  assumes "triangle0 (edge_heap s ! edge) \<noteq> None"
  shows "\<exists>found. FindCandidateVertex ar it edge r s = Inr found"
proof -
  from assms obtain t where t: "triangle0 (edge_heap s ! edge) = Some t" by auto
  from GetOppositeVertex_Some[OF t] obtain opp where
    "GetOppositeVertex (triangle_heap s) (edge_heap s ! edge) = Some opp" by blast
  then show ?thesis
    unfolding FindCandidateVertex_def Let_def using t by simp
qed

lemma FindCandidateVertex_candidate:
  assumes f: "FindCandidateVertex ar it edge r s = Inr (Some (c, ctr))" and ix: "index_ok s"
  shows "\<exists>opp. GetOppositeVertex (triangle_heap s) (edge_heap s ! edge) = Some opp \<and>
           c < length (vertices s) \<and> c \<noteq> source (edge_heap s ! edge) \<and>
           c \<noteq> target (edge_heap s ! edge) \<and> c \<noteq> opp"
proof -
  from f obtain opp where opp: "GetOppositeVertex (triangle_heap s) (edge_heap s ! edge) = Some opp"
    unfolding FindCandidateVertex_def Let_def by (auto split: option.splits)
  from f opp obtain t where t: "triangle0 (edge_heap s ! edge) = Some t"
    unfolding FindCandidateVertex_def Let_def by (auto split: option.splits)
  define mp where "mp = fscale ar (lit ar (1 / 2))
      (fplus ar (point (vertices s ! source (edge_heap s ! edge)))
         (point (vertices s ! target (edge_heap s ! edge))))"
  from f opp t obtain v a where
    "fst (fold (FindCandidateVertex_visit ar it s r (source (edge_heap s ! edge))
              (target (edge_heap s ! edge)) opp mp v a
              (SearchRadius s mp (fmul ar (lit ar 2) r)))
            (SearchRadius s mp (fmul ar (lit ar 2) r))
            (None, fmul ar (lit ar 2) (lit ar M_PI))) = Some (c, ctr)"
    unfolding FindCandidateVertex_def Let_def mp_def by simp
  from FindCandidateVertex_fold_result[OF this]
  have "c \<in> set (SearchRadius s mp (fmul ar (lit ar 2) r)) \<and> c \<noteq> source (edge_heap s ! edge) \<and>
        c \<noteq> target (edge_heap s ! edge) \<and> c \<noteq> opp"
    by simp
  moreover from ix have "set (SearchRadius s mp (fmul ar (lit ar 2) r)) \<subseteq> {..<length (vertices s)}"
    unfolding index_ok_def by blast
  ultimately show ?thesis using opp by auto
qed

lemma GetOppositeVertex_third:
  assumes t: "triangle0 e = Some t" and c: "corners (ts ! t) = {source e, target e, c}"
    and n: "c \<noteq> source e" "c \<noteq> target e"
  shows "GetOppositeVertex ts e = Some c"
proof -
  have v: "vert0 (ts ! t) \<in> {source e, target e, c}" "vert1 (ts ! t) \<in> {source e, target e, c}"
    "vert2 (ts ! t) \<in> {source e, target e, c}"
    using c unfolding corners_def by blast+
  have "c \<in> {vert0 (ts ! t), vert1 (ts ! t), vert2 (ts ! t)}"
    using c unfolding corners_def by blast
  with v n show ?thesis
    unfolding GetOppositeVertex_def t by auto
qed

subsection \<open>One step of the expansion\<close>

lemma topology_okD:
  assumes "topology_ok s"
  shows "store_ok s" "edges_ok s" "vertices_ok s" "unique_edges s" "slots_ok s" "types_ok s"
    "triangles_ok s" "queues_ok s" "index_ok s" "orphans_ok s"
    "length (mesh_triangles s) = length (triangle_heap s)"
  using assms by (simp_all add: topology_ok_def store_ok_def)

lemma front_edge_slots:
  assumes ok: "topology_ok s" and e: "e < length (edge_heap s)"
    and front: "etype (edge_heap s ! e) \<noteq> Inner"
  shows "\<exists>t0. triangle0 (edge_heap s ! e) = Some t0 \<and> triangle1 (edge_heap s ! e) = None \<and>
           slots (edge_heap s ! e) = {t0} \<and> t0 < length (triangle_heap s)"
proof -
  from topology_okD(6)[OF ok] e front have t1: "triangle1 (edge_heap s ! e) = None"
    unfolding types_ok_def by blast
  from topology_okD(5)[OF ok] e obtain t0 where t0: "triangle0 (edge_heap s ! e) = Some t0"
    unfolding slots_ok_def by blast
  have sl: "slots (edge_heap s ! e) = {t0}" by (simp add: slots_def t0 t1)
  from topology_okD(5)[OF ok] e have "\<forall>t \<in> slots (edge_heap s ! e). t < length (triangle_heap s)"
    unfolding slots_ok_def by blast
  with sl have "t0 < length (triangle_heap s)" by simp
  with t0 t1 sl show ?thesis by blast
qed

lemma edge_ends:
  assumes ok: "topology_ok s" and e: "e < length (edge_heap s)"
  shows "source (edge_heap s ! e) < length (vertices s)"
    and "target (edge_heap s ! e) < length (vertices s)"
    and "source (edge_heap s ! e) \<noteq> target (edge_heap s ! e)"
  using topology_okD(2)[OF ok] e unfolding edges_ok_def by blast+

lemma unique_edge:
  assumes ok: "topology_ok s" and e: "e < length (edge_heap s)" and e': "e' < length (edge_heap s)"
    and same: "endpoints (edge_heap s ! e) = endpoints (edge_heap s ! e')"
  shows "e = e'"
  using topology_okD(4)[OF ok] e e' same unfolding unique_edges_def by blast

lemma triangle_okD:
  assumes ok: "topology_ok s" and t: "t < length (triangle_heap s)"
  shows "triangle_ok s t"
  using topology_okD(7,11)[OF ok] t unfolding triangles_ok_def by simp

lemma triangle_linked:
  assumes ok: "topology_ok s" and t: "t < length (triangle_heap s)"
    and a: "a \<in> corners (triangle_heap s ! t)" and b: "b \<in> corners (triangle_heap s ! t)"
    and ab: "a \<noteq> b"
  shows "linked s a b t"
  using triangle_okD[OF ok t] a b ab unfolding triangle_ok_def by blast

lemma expand_fresh:
  assumes ok: "topology_ok s" and e: "edge < length (edge_heap s)"
    and front: "etype (edge_heap s ! edge) = Front"
    and opp: "GetOppositeVertex (triangle_heap s) (edge_heap s ! edge) = Some opp"
    and c: "c \<noteq> source (edge_heap s ! edge)" "c \<noteq> target (edge_heap s ! edge)" "c \<noteq> opp"
  shows "\<forall>t < length (triangle_heap s).
           corners (triangle_heap s ! t) \<noteq> {source (edge_heap s ! edge), target (edge_heap s ! edge), c}"
proof (intro allI impI notI)
  fix t assume t: "t < length (triangle_heap s)"
    and co: "corners (triangle_heap s ! t) =
               {source (edge_heap s ! edge), target (edge_heap s ! edge), c}"
  let ?src = "source (edge_heap s ! edge)" and ?tgt = "target (edge_heap s ! edge)"
  have ne: "?src \<noteq> ?tgt" by (rule edge_ends(3)[OF ok e])
  have "linked s ?src ?tgt t"
    by (rule triangle_linked[OF ok t _ _ ne]) (simp_all add: co)
  then obtain e' where e': "e' < length (edge_heap s)"
    and ends: "endpoints (edge_heap s ! e') = {?src, ?tgt}" and sl: "t \<in> slots (edge_heap s ! e')"
    unfolding linked_def by blast
  have "edge = e'"
    by (rule unique_edge[OF ok e e']) (simp only: ends, simp add: endpoints_def)
  with sl have sl': "t \<in> slots (edge_heap s ! edge)" by simp
  from front have "etype (edge_heap s ! edge) \<noteq> Inner" by simp
  from front_edge_slots[OF ok e this] sl' have t0: "triangle0 (edge_heap s ! edge) = Some t"
    by auto
  from GetOppositeVertex_third[OF t0 co c(1,2)] opp c(3) show False by simp
qed

lemma expand_guard:
  assumes ok: "topology_ok s" and e: "edge < length (edge_heap s)"
    and front: "etype (edge_heap s ! edge) = Front"
    and c: "c < length (vertices s)" "c \<noteq> source (edge_heap s ! edge)"
      "c \<noteq> target (edge_heap s ! edge)"
    and g0: "\<not> is_not_front s (GetLinkingEdge s c (source (edge_heap s ! edge)))"
    and g1: "\<not> is_not_front s (GetLinkingEdge s c (target (edge_heap s ! edge)))"
  shows "\<forall>x < length (edge_heap s).
           endpoints (edge_heap s ! x) \<in>
             {{source (edge_heap s ! edge), target (edge_heap s ! edge)},
              {target (edge_heap s ! edge), c}, {c, source (edge_heap s ! edge)}} \<longrightarrow>
           etype (edge_heap s ! x) = Front"
proof (intro allI impI)
  let ?src = "source (edge_heap s ! edge)" and ?tgt = "target (edge_heap s ! edge)"
  fix x assume x: "x < length (edge_heap s)"
    and "endpoints (edge_heap s ! x) \<in> {{?src, ?tgt}, {?tgt, c}, {c, ?src}}"
  then consider (a) "endpoints (edge_heap s ! x) = {?src, ?tgt}"
    | (b) "endpoints (edge_heap s ! x) = {c, ?tgt}"
    | (c) "endpoints (edge_heap s ! x) = {c, ?src}"
    by (auto simp: insert_commute)
  then show "etype (edge_heap s ! x) = Front"
  proof cases
    case a
    have "edge = x" by (rule unique_edge[OF ok e x]) (simp only: a, simp add: endpoints_def)
    with front show ?thesis by simp
  next
    case b
    have "GetLinkingEdge s c ?tgt = Some x"
      by (rule GetLinkingEdge_complete[OF topology_okD(2,3,4)[OF ok] c(1) edge_ends(2)[OF ok e]
            c(3) x b])
    with g1 show ?thesis by (simp add: is_not_front_def)
  next
    case c
    have "GetLinkingEdge s c ?src = Some x"
      by (rule GetLinkingEdge_complete[OF topology_okD(2,3,4)[OF ok] \<open>c < length (vertices s)\<close>
            edge_ends(1)[OF ok e] \<open>c \<noteq> ?src\<close> x c])
    with g0 show ?thesis by (simp add: is_not_front_def)
  qed
qed

lemma push_front_if_front_simps [simp]:
  "edge_heap (push_front_if_front e s) = edge_heap s"
  "triangle_heap (push_front_if_front e s) = triangle_heap s"
  "vertices (push_front_if_front e s) = vertices s"
  "border_edges (push_front_if_front e s) = border_edges s"
  "mesh_triangles (push_front_if_front e s) = mesh_triangles s"
  "SearchRadius (push_front_if_front e s) = SearchRadius s"
  "has_normals (push_front_if_front e s) = has_normals s"
  by (simp_all add: push_front_if_front_def)

lemma mark_border_simps [simp]:
  "triangle_heap (mark_border e s) = triangle_heap s"
  "vertices (mark_border e s) = vertices s"
  "edge_front (mark_border e s) = edge_front s"
  "mesh_triangles (mark_border e s) = mesh_triangles s"
  "SearchRadius (mark_border e s) = SearchRadius s"
  "has_normals (mark_border e s) = has_normals s"
  "length (edge_heap (mark_border e s)) = length (edge_heap s)"
  "border_edges (mark_border e s) = border_edges s @ [e]"
  by (simp_all add: mark_border_def)

text \<open>After \<^verbatim>\<open>CreateTriangle\<close> the edge between two corners of the new triangle is found.\<close>

lemma linking_edge_found:
  assumes ok: "topology_ok s" and t: "t < length (triangle_heap s)"
    and a: "a \<in> corners (triangle_heap s ! t)" and b: "b \<in> corners (triangle_heap s ! t)"
    and ab: "a \<noteq> b"
  shows "\<exists>e < length (edge_heap s). GetLinkingEdge s a b = Some e \<and>
           endpoints (edge_heap s ! e) = {a, b} \<and> t \<in> slots (edge_heap s ! e)"
proof -
  from triangle_linked[OF ok t a b ab] obtain e where e: "e < length (edge_heap s)"
    and ends: "endpoints (edge_heap s ! e) = {a, b}" and sl: "t \<in> slots (edge_heap s ! e)"
    unfolding linked_def by blast
  from triangle_okD[OF ok t] a b have "a < length (vertices s)" "b < length (vertices s)"
    unfolding triangle_ok_def by blast+
  from GetLinkingEdge_complete[OF topology_okD(2,3,4)[OF ok] this ab e ends] e ends sl
  show ?thesis by blast
qed

lemma two_slots: "a \<in> slots e \<Longrightarrow> b \<in> slots e \<Longrightarrow> a \<noteq> b \<Longrightarrow> triangle1 e \<noteq> None"
  by (auto simp: slots_def)

lemma triangle_frameD:
  assumes "triangle_frame v0 v1 v2 center s s'"
  shows "triangle_heap s' = triangle_heap s @
           [\<lparr>vert0 = v0, vert1 = v1, vert2 = v2, ball_center = center\<rparr>]"
    and "mesh_triangles s' = mesh_triangles s @ [(v0, v1, v2)] \<or>
         mesh_triangles s' = mesh_triangles s @ [(v0, v2, v1)]"
    and "edge_front s' = edge_front s"
    and "border_edges s' = border_edges s"
    and "SearchRadius s' = SearchRadius s"
    and "has_normals s' = has_normals s"
    and "length (vertices s') = length (vertices s)"
    and "length (edge_heap s) \<le> length (edge_heap s')"
proof -
  from assms have "pushed v0 v1 v2 center s s'" by (simp add: triangle_frame_def)
  then show "triangle_heap s' = triangle_heap s @
           [\<lparr>vert0 = v0, vert1 = v1, vert2 = v2, ball_center = center\<rparr>]"
    and "mesh_triangles s' = mesh_triangles s @ [(v0, v1, v2)] \<or>
         mesh_triangles s' = mesh_triangles s @ [(v0, v2, v1)]"
    and "edge_front s' = edge_front s"
    and "border_edges s' = border_edges s"
    and "SearchRadius s' = SearchRadius s"
    and "has_normals s' = has_normals s"
    and "length (vertices s') = length (vertices s)"
    and "length (edge_heap s) \<le> length (edge_heap s')"
    by (simp_all add: pushed_def)
qed

lemma triangle_frame_edge:
  assumes "triangle_frame v0 v1 v2 center s s'" and "e < length (edge_heap s)"
  shows "endpoints (edge_heap s ! e) \<notin> {{v0, v1}, {v1, v2}, {v2, v0}} \<Longrightarrow>
           edge_heap s' ! e = edge_heap s ! e"
    and "endpoints (edge_heap s' ! e) = endpoints (edge_heap s ! e)"
    and "slots (edge_heap s ! e) \<subseteq> slots (edge_heap s' ! e)"
proof -
  from assms(1) have "frame_edges {{v0, v1}, {v1, v2}, {v2, v0}} s s'"
    by (simp add: triangle_frame_def)
  with assms(2) have *: "(endpoints (edge_heap s ! e) \<notin> {{v0, v1}, {v1, v2}, {v2, v0}} \<longrightarrow>
          edge_heap s' ! e = edge_heap s ! e) \<and>
       endpoints (edge_heap s' ! e) = endpoints (edge_heap s ! e) \<and>
       slots (edge_heap s ! e) \<subseteq> slots (edge_heap s' ! e)"
    unfolding frame_edges_def by blast
  show "endpoints (edge_heap s ! e) \<notin> {{v0, v1}, {v1, v2}, {v2, v0}} \<Longrightarrow>
           edge_heap s' ! e = edge_heap s ! e"
    and "endpoints (edge_heap s' ! e) = endpoints (edge_heap s ! e)"
    and "slots (edge_heap s ! e) \<subseteq> slots (edge_heap s' ! e)"
    using * by simp_all
qed

text \<open>The successful case of a step: the triangle is created, the edge that was popped becomes
  an inner edge, and the two other sides of the triangle are found afterwards.\<close>

lemma expand_create:
  assumes ok: "topology_ok s" and e: "edge < length (edge_heap s)"
    and front: "etype (edge_heap s ! edge) = Front"
    and f: "FindCandidateVertex ar it edge r s = Inr (Some (c, ctr))"
    and g0: "\<not> is_not_front s (GetLinkingEdge s c (source (edge_heap s ! edge)))"
    and g1: "\<not> is_not_front s (GetLinkingEdge s c (target (edge_heap s ! edge)))"
  shows "\<exists>s2 e0 e1.
      CreateTriangle ar (source (edge_heap s ! edge)) (target (edge_heap s ! edge)) c ctr s = Inr s2 \<and>
      topology_ok s2 \<and>
      triangle_frame (source (edge_heap s ! edge)) (target (edge_heap s ! edge)) c ctr s s2 \<and>
      etype (edge_heap s2 ! edge) = Inner \<and>
      GetLinkingEdge s2 c (source (edge_heap s2 ! edge)) = Some e0 \<and>
      GetLinkingEdge s2 c (target (edge_heap s2 ! edge)) = Some e1 \<and>
      e0 < length (edge_heap s2) \<and> e1 < length (edge_heap s2)"
proof -
  let ?src = "source (edge_heap s ! edge)" and ?tgt = "target (edge_heap s ! edge)"
  from FindCandidateVertex_candidate[OF f topology_okD(9)[OF ok]] obtain opp where
    opp: "GetOppositeVertex (triangle_heap s) (edge_heap s ! edge) = Some opp"
    and c: "c < length (vertices s)" "c \<noteq> ?src" "c \<noteq> ?tgt" "c \<noteq> opp"
    by blast
  note ends = edge_ends[OF ok e]
  have guard: "\<forall>x < length (edge_heap s).
           endpoints (edge_heap s ! x) \<in> {{?src, ?tgt}, {?tgt, c}, {c, ?src}} \<longrightarrow>
           etype (edge_heap s ! x) = Front"
    by (rule expand_guard[OF ok e front c(1,2,3) g0 g1])
  have fresh: "\<forall>t < length (triangle_heap s). corners (triangle_heap s ! t) \<noteq> {?src, ?tgt, c}"
    by (rule expand_fresh[OF ok e front opp c(2,3,4)])
  from CreateTriangle_ok[OF ok ends(1) ends(2) c(1) ends(3) c(3)[symmetric] c(2) guard fresh,
      of ar ctr]
  obtain s2 where ct: "CreateTriangle ar ?src ?tgt c ctr s = Inr s2" and ok2: "topology_ok s2"
    and fr: "triangle_frame ?src ?tgt c ctr s s2"
    by blast
  note D = triangle_frameD[OF fr]
  define k where "k = length (triangle_heap s)"
  have k: "k < length (triangle_heap s2)" by (simp add: D(1) k_def)
  have co: "corners (triangle_heap s2 ! k) = {?src, ?tgt, c}"
    by (simp add: D(1) k_def corners_def)
  have e2: "edge < length (edge_heap s2)" using e D(8) by simp
  have ends2: "endpoints (edge_heap s2 ! edge) = {?src, ?tgt}"
    using triangle_frame_edge(2)[OF fr e] by (simp add: endpoints_def)
  from linking_edge_found[OF ok2 k, of ?src ?tgt] ends(3) co
  obtain e' where e': "e' < length (edge_heap s2)"
    and ends': "endpoints (edge_heap s2 ! e') = {?src, ?tgt}"
    and ke': "k \<in> slots (edge_heap s2 ! e')"
    by auto
  have "edge = e'"
    by (rule unique_edge[OF ok2 e2 e']) (simp only: ends2 ends')
  with ke' have kin: "k \<in> slots (edge_heap s2 ! edge)" by simp
  from front have "etype (edge_heap s ! edge) \<noteq> Inner" by simp
  from front_edge_slots[OF ok e this] obtain t0 where
    t0: "slots (edge_heap s ! edge) = {t0}" "t0 < length (triangle_heap s)" by blast
  with triangle_frame_edge(3)[OF fr e] have t0in: "t0 \<in> slots (edge_heap s2 ! edge)" by blast
  have "triangle1 (edge_heap s2 ! edge) \<noteq> None"
    by (rule two_slots[OF t0in kin]) (use t0(2) in \<open>simp add: k_def\<close>)
  with topology_okD(6)[OF ok2] e2 have inner: "etype (edge_heap s2 ! edge) = Inner"
    unfolding types_ok_def by blast
  have st: "source (edge_heap s2 ! edge) \<in> {?src, ?tgt}" "target (edge_heap s2 ! edge) \<in> {?src, ?tgt}"
    using ends2 unfolding endpoints_def by blast+
  have found: "\<And>x. x \<in> {?src, ?tgt} \<Longrightarrow>
      \<exists>e0 < length (edge_heap s2). GetLinkingEdge s2 c x = Some e0"
  proof -
    fix x assume x: "x \<in> {?src, ?tgt}"
    then have cx: "c \<noteq> x" using c(2,3) by auto
    from linking_edge_found[OF ok2 k _ _ cx] x co show
      "\<exists>e0 < length (edge_heap s2). GetLinkingEdge s2 c x = Some e0"
      by auto
  qed
  from found[OF st(1)] obtain e0 where e0: "e0 < length (edge_heap s2)"
    "GetLinkingEdge s2 c (source (edge_heap s2 ! edge)) = Some e0" by blast
  from found[OF st(2)] obtain e1 where e1: "e1 < length (edge_heap s2)"
    "GetLinkingEdge s2 c (target (edge_heap s2 ! edge)) = Some e1" by blast
  from ct ok2 fr inner e0 e1 show ?thesis by blast
qed

text \<open>The three outcomes of a step, for a queue \<open>edge # rest\<close>.\<close>

lemma step_stale:
  assumes q: "edge_front s = edge # rest" and ty: "etype (edge_heap s ! edge) \<noteq> Front"
  shows "ExpandTriangulation_step ar it r s = Inr (s\<lparr>edge_front := rest\<rparr>)"
  unfolding ExpandTriangulation_step_def q using ty by (simp add: Let_def)

lemma step_no_candidate:
  assumes q: "edge_front s = edge # rest" and ty: "etype (edge_heap s ! edge) = Front"
    and f: "FindCandidateVertex ar it edge r (s\<lparr>edge_front := rest\<rparr>) = Inr None"
  shows "ExpandTriangulation_step ar it r s = Inr (mark_border edge (s\<lparr>edge_front := rest\<rparr>))"
  unfolding ExpandTriangulation_step_def q using ty f by (simp add: Let_def)

lemma step_rejected:
  assumes q: "edge_front s = edge # rest" and ty: "etype (edge_heap s ! edge) = Front"
    and f: "FindCandidateVertex ar it edge r (s\<lparr>edge_front := rest\<rparr>) = Inr (Some (c, ctr))"
    and rej: "vtype (vertices s ! c) = VInner \<or>
              \<not> IsCompatible ar (vertices s) c (source (edge_heap s ! edge))
                  (target (edge_heap s ! edge)) \<or>
              is_not_front (s\<lparr>edge_front := rest\<rparr>)
                (GetLinkingEdge (s\<lparr>edge_front := rest\<rparr>) c (source (edge_heap s ! edge))) \<or>
              is_not_front (s\<lparr>edge_front := rest\<rparr>)
                (GetLinkingEdge (s\<lparr>edge_front := rest\<rparr>) c (target (edge_heap s ! edge)))"
  shows "ExpandTriangulation_step ar it r s = Inr (mark_border edge (s\<lparr>edge_front := rest\<rparr>))"
  unfolding ExpandTriangulation_step_def q using ty f rej by (auto simp: Let_def)

lemma step_created:
  assumes q: "edge_front s = edge # rest" and ty: "etype (edge_heap s ! edge) = Front"
    and f: "FindCandidateVertex ar it edge r (s\<lparr>edge_front := rest\<rparr>) = Inr (Some (c, ctr))"
    and acc: "vtype (vertices s ! c) \<noteq> VInner"
      "IsCompatible ar (vertices s) c (source (edge_heap s ! edge)) (target (edge_heap s ! edge))"
      "\<not> is_not_front (s\<lparr>edge_front := rest\<rparr>)
          (GetLinkingEdge (s\<lparr>edge_front := rest\<rparr>) c (source (edge_heap s ! edge)))"
      "\<not> is_not_front (s\<lparr>edge_front := rest\<rparr>)
          (GetLinkingEdge (s\<lparr>edge_front := rest\<rparr>) c (target (edge_heap s ! edge)))"
    and ct: "CreateTriangle ar (source (edge_heap s ! edge)) (target (edge_heap s ! edge)) c ctr
               (s\<lparr>edge_front := rest\<rparr>) = Inr s2"
    and e0: "GetLinkingEdge s2 c (source (edge_heap s2 ! edge)) = Some e0"
    and e1: "GetLinkingEdge s2 c (target (edge_heap s2 ! edge)) = Some e1"
  shows "ExpandTriangulation_step ar it r s =
           Inr (push_front_if_front e1 (push_front_if_front e0 s2))"
  unfolding ExpandTriangulation_step_def q using ty f acc ct e0 e1 by (simp add: Let_def)

lemma pop_ok:
  assumes ok: "topology_ok s" and q: "edge_front s = edge # rest"
  shows "topology_ok (s\<lparr>edge_front := rest\<rparr>)" and "edge < length (edge_heap s)"
proof -
  from topology_okD(8)[OF ok] q have "set rest \<subseteq> {..<length (edge_heap s)}"
    and e: "edge < length (edge_heap s)"
    unfolding queues_ok_def by auto
  then show "topology_ok (s\<lparr>edge_front := rest\<rparr>)" by (intro topology_ok_front[OF ok])
  show "edge < length (edge_heap s)" by (rule e)
qed

text \<open>A step keeps the invariants and never fails; it shortens the queue or adds a
  triangle.\<close>

lemma ExpandTriangulation_step_ok:
  assumes ok: "topology_ok s" and ne: "edge_front s \<noteq> []"
  shows "\<exists>s'. ExpandTriangulation_step ar it r s = Inr s' \<and> topology_ok s' \<and>
           length (vertices s') = length (vertices s) \<and>
           has_normals s' = has_normals s \<and>
           ((length (triangle_heap s') = length (triangle_heap s) \<and>
             length (edge_front s') < length (edge_front s)) \<or>
            length (triangle_heap s') = Suc (length (triangle_heap s)))"
proof -
  from ne obtain edge rest where q: "edge_front s = edge # rest" by (cases "edge_front s") auto
  define s1 where "s1 = s\<lparr>edge_front := rest\<rparr>"
  have ok1: "topology_ok s1" and e: "edge < length (edge_heap s)"
    unfolding s1_def by (rule pop_ok[OF ok q])+
  have s1: "edge_heap s1 = edge_heap s" "vertices s1 = vertices s"
    "triangle_heap s1 = triangle_heap s" "edge_front s1 = rest" "has_normals s1 = has_normals s"
    by (simp_all add: s1_def)
  have e1: "edge < length (edge_heap s1)" using e by (simp add: s1)
  show ?thesis
  proof (cases "etype (edge_heap s ! edge) = Front")
    case False
    from step_stale[OF q False, of ar it r] ok1 show ?thesis
      by (simp add: s1_def[symmetric] s1 q)
  next
    case True
    then have front1: "etype (edge_heap s1 ! edge) = Front" by (simp add: s1)
    then have "etype (edge_heap s1 ! edge) \<noteq> Inner" by simp
    from front_edge_slots[OF ok1 e1 this] have "triangle0 (edge_heap s1 ! edge) \<noteq> None" by auto
    from FindCandidateVertex_total[OF this] obtain found where
      f: "FindCandidateVertex ar it edge r s1 = Inr found" by blast
    have border: "topology_ok (mark_border edge s1)"
      by (rule topology_ok_mark_border[OF ok1 e1 front1])
    have border_case: "ExpandTriangulation_step ar it r s = Inr (mark_border edge s1) \<Longrightarrow> ?thesis"
      using border by (simp add: s1 q)
    show ?thesis
    proof (cases found)
      case None
      show ?thesis
        by (rule border_case) (use step_no_candidate[OF q True] f None in \<open>simp add: s1_def\<close>)
    next
      case (Some p)
      obtain c ctr where p: "p = (c, ctr)" by (cases p)
      note f' = f[unfolded Some p]
      show ?thesis
      proof (cases "vtype (vertices s ! c) = VInner \<or>
              \<not> IsCompatible ar (vertices s) c (source (edge_heap s ! edge))
                  (target (edge_heap s ! edge)) \<or>
              is_not_front s1 (GetLinkingEdge s1 c (source (edge_heap s ! edge))) \<or>
              is_not_front s1 (GetLinkingEdge s1 c (target (edge_heap s ! edge)))")
        case True
        show ?thesis
          by (rule border_case)
             (use step_rejected[OF q \<open>etype (edge_heap s ! edge) = Front\<close>] f' True
               in \<open>simp add: s1_def\<close>)
      next
        case False
        then have acc: "vtype (vertices s ! c) \<noteq> VInner"
          "IsCompatible ar (vertices s) c (source (edge_heap s ! edge)) (target (edge_heap s ! edge))"
          "\<not> is_not_front s1 (GetLinkingEdge s1 c (source (edge_heap s ! edge)))"
          "\<not> is_not_front s1 (GetLinkingEdge s1 c (target (edge_heap s ! edge)))"
          by blast+
        from expand_create[OF ok1 e1 front1 f'] acc(3,4) obtain s2 e0 e1' where
          ct: "CreateTriangle ar (source (edge_heap s ! edge)) (target (edge_heap s ! edge)) c ctr s1
                 = Inr s2"
          and ok2: "topology_ok s2"
          and fr: "triangle_frame (source (edge_heap s ! edge)) (target (edge_heap s ! edge))
                     c ctr s1 s2"
          and g0: "GetLinkingEdge s2 c (source (edge_heap s2 ! edge)) = Some e0"
          and g1: "GetLinkingEdge s2 c (target (edge_heap s2 ! edge)) = Some e1'"
          and l0: "e0 < length (edge_heap s2)" and l1: "e1' < length (edge_heap s2)"
          unfolding s1 by blast
        have res: "ExpandTriangulation_step ar it r s =
            Inr (push_front_if_front e1' (push_front_if_front e0 s2))"
          by (rule step_created[OF q \<open>etype (edge_heap s ! edge) = Front\<close>
                f'[unfolded s1_def] acc(1,2) acc(3)[unfolded s1_def] acc(4)[unfolded s1_def]
                ct[unfolded s1_def] g0 g1])
        note D = triangle_frameD[OF fr]
        have "topology_ok (push_front_if_front e0 s2)"
          by (rule topology_ok_push_front_if_front[OF ok2 l0])
        then have "topology_ok (push_front_if_front e1' (push_front_if_front e0 s2))"
          by (rule topology_ok_push_front_if_front) (simp add: l1)
        with res D show ?thesis by (simp add: s1)
      qed
    qed
  qed
qed

subsection \<open>The expansion terminates\<close>

text \<open>The triangles of the store have different sets of corners, all sets of vertices: there
  are at most \<open>2 ^ n\<close> of them for \<open>n\<close> vertices.\<close>

lemma triangles_bounded:
  assumes ok: "topology_ok s"
  shows "length (triangle_heap s) \<le> 2 ^ length (vertices s)"
proof -
  let ?f = "\<lambda>t. corners (triangle_heap s ! t)"
  let ?A = "{..<length (triangle_heap s)}"
  have inj: "inj_on ?f ?A"
    using topology_okD(7,11)[OF ok] unfolding inj_on_def triangles_ok_def by simp
  have sub: "?f ` ?A \<subseteq> Pow {..<length (vertices s)}"
  proof
    fix X assume "X \<in> ?f ` ?A"
    then obtain t where t: "t < length (triangle_heap s)" and X: "X = ?f t" by auto
    from triangle_okD[OF ok t] have "?f t \<subseteq> {..<length (vertices s)}"
      unfolding triangle_ok_def by blast
    with X show "X \<in> Pow {..<length (vertices s)}" by simp
  qed
  have "card ?A \<le> card (Pow {..<length (vertices s)})"
    by (rule card_inj_on_le[OF inj sub]) simp
  then show ?thesis by (simp add: card_Pow)
qed

lemma ExpandTriangulation_terminates:
  assumes ok: "topology_ok s"
  shows "\<exists>s'. ExpandTriangulation ar it r s = Some (Inr s') \<and> topology_ok s' \<and>
           edge_front s' = [] \<and> length (vertices s') = length (vertices s) \<and>
           has_normals s' = has_normals s \<and> (engine_step ar it)\<^sup>*\<^sup>* s s'"
  using ok
proof (induction s rule: wf_induct_rule[OF wf_inv_image[OF wf_lex_prod[OF wf_less_than wf_less_than],
        of expansion_measure]])
  case (1 s)
  show ?case
  proof (cases "edge_front s = []")
    case True
    then show ?thesis using "1.prems" by (subst ExpandTriangulation.simps) simp
  next
    case False
    from ExpandTriangulation_step_ok[OF "1.prems" False, of ar it r] obtain s1 where
      step: "ExpandTriangulation_step ar it r s = Inr s1" and ok1: "topology_ok s1"
      and n: "length (vertices s1) = length (vertices s)"
      and hn: "has_normals s1 = has_normals s"
      and m: "(length (triangle_heap s1) = length (triangle_heap s) \<and>
               length (edge_front s1) < length (edge_front s)) \<or>
              length (triangle_heap s1) = Suc (length (triangle_heap s))"
      by blast
    from triangles_bounded[OF ok1] n have b: "length (triangle_heap s1) \<le> 2 ^ length (vertices s)"
      by simp
    have "(s1, s) \<in> inv_image (less_than <*lex*> less_than) expansion_measure"
      using m b n unfolding expansion_measure_def by auto
    from "1.IH"[OF this ok1] obtain s' where
      "ExpandTriangulation ar it r s1 = Some (Inr s')" "topology_ok s'" "edge_front s' = []"
      "length (vertices s') = length (vertices s1)" "has_normals s' = has_normals s1"
      and steps: "(engine_step ar it)\<^sup>*\<^sup>* s1 s'"
      by blast
    moreover have "ExpandTriangulation ar it r s = ExpandTriangulation ar it r s1"
      using False step by (subst ExpandTriangulation.simps) simp
    moreover have "(engine_step ar it)\<^sup>*\<^sup>* s s'"
      by (rule converse_rtranclp_into_rtranclp[OF engine_Expand[OF False step] steps])
    ultimately show ?thesis using n hn by simp
  qed
qed

subsection \<open>Seeds\<close>

text \<open>No ball rests on a triangle with a vertex taken twice.\<close>

lemma TryTriangleSeed_distinct:
  assumes "degenerate_fails ar" and "TryTriangleSeed ar s v0 v1 v2 nb r = Some ctr"
  shows "v1 \<noteq> v2"
proof
  assume "v1 = v2"
  with assms show False
    unfolding TryTriangleSeed_def degenerate_fails_def by (simp split: if_splits)
qed

lemma TrySeed_inner_Some:
  assumes "TrySeed_inner ar s v nb0 indices r later = Some (nb1, ctr)"
  shows "nb1 \<in> set later \<and> vtype (vertices s ! nb1) = Orphan \<and> nb1 \<noteq> v \<and>
         TryTriangleSeed ar s v nb0 nb1 indices r = Some ctr"
  using assms
  by (induction later) (auto split: if_splits option.splits)

text \<open>An orphan vertex is the end of no edge and the corner of no triangle.\<close>

lemma orphan_no_edge:
  assumes ok: "topology_ok s" and v: "v < length (vertices s)"
    and o: "vtype (vertices s ! v) = Orphan" and e: "e < length (edge_heap s)"
  shows "v \<notin> endpoints (edge_heap s ! e)"
proof
  assume "v \<in> endpoints (edge_heap s ! e)"
  then have "v = source (edge_heap s ! e) \<or> v = target (edge_heap s ! e)"
    by (simp add: endpoints_def)
  with topology_okD(2)[OF ok] e have "e \<in> set (edges (vertices s ! v))"
    unfolding edges_ok_def by auto
  moreover from topology_okD(10)[OF ok] v o have "edges (vertices s ! v) = []"
    unfolding orphans_ok_def by blast
  ultimately show False by simp
qed

lemma card3_other:
  assumes "card A = 3" and "a \<in> A"
  shows "\<exists>b \<in> A. b \<noteq> a"
proof (rule ccontr)
  assume "\<not> (\<exists>b \<in> A. b \<noteq> a)"
  with assms(2) have "A = {a}" by blast
  with assms(1) show False by simp
qed

lemma orphan_no_triangle:
  assumes ok: "topology_ok s" and v: "v < length (vertices s)"
    and o: "vtype (vertices s ! v) = Orphan" and t: "t < length (triangle_heap s)"
  shows "v \<notin> corners (triangle_heap s ! t)"
proof
  assume vin: "v \<in> corners (triangle_heap s ! t)"
  from triangle_okD[OF ok t] have "card (corners (triangle_heap s ! t)) = 3"
    unfolding triangle_ok_def by blast
  from card3_other[OF this vin] obtain b where b: "b \<in> corners (triangle_heap s ! t)" "b \<noteq> v"
    by blast
  from triangle_linked[OF ok t vin b(1) b(2)[symmetric]] obtain e where
    e: "e < length (edge_heap s)" and ends: "endpoints (edge_heap s ! e) = {v, b}"
    unfolding linked_def by blast
  from orphan_no_edge[OF ok v o e] ends show False by simp
qed

text \<open>A seed on two orphan vertices: the triangle is created and its three sides are found
  afterwards.\<close>

lemma seed_create:
  assumes ok: "topology_ok s" and v: "v < length (vertices s)"
    and nb0: "nb0 < length (vertices s)" and nb1: "nb1 < length (vertices s)"
    and o0: "vtype (vertices s ! nb0) = Orphan" and o1: "vtype (vertices s ! nb1) = Orphan"
    and d: "nb0 \<noteq> v" "nb1 \<noteq> v" "nb0 \<noteq> nb1"
  shows "\<exists>s1 e0 e1 e2.
      CreateTriangle ar v nb0 nb1 ctr s = Inr s1 \<and> topology_ok s1 \<and>
      triangle_frame v nb0 nb1 ctr s s1 \<and>
      GetLinkingEdge s1 v nb1 = Some e0 \<and> GetLinkingEdge s1 nb0 nb1 = Some e1 \<and>
      GetLinkingEdge s1 v nb0 = Some e2 \<and>
      e0 < length (edge_heap s1) \<and> e1 < length (edge_heap s1) \<and> e2 < length (edge_heap s1)"
proof -
  have guard: "\<forall>e < length (edge_heap s).
        endpoints (edge_heap s ! e) \<in> {{v, nb0}, {nb0, nb1}, {nb1, v}} \<longrightarrow>
        etype (edge_heap s ! e) = Front"
  proof (intro allI impI)
    fix e assume e: "e < length (edge_heap s)"
      and "endpoints (edge_heap s ! e) \<in> {{v, nb0}, {nb0, nb1}, {nb1, v}}"
    then have "nb0 \<in> endpoints (edge_heap s ! e) \<or> nb1 \<in> endpoints (edge_heap s ! e)"
      by auto
    with orphan_no_edge[OF ok nb0 o0 e] orphan_no_edge[OF ok nb1 o1 e]
    show "etype (edge_heap s ! e) = Front" by blast
  qed
  have fresh: "\<forall>t < length (triangle_heap s). corners (triangle_heap s ! t) \<noteq> {v, nb0, nb1}"
  proof (intro allI impI notI)
    fix t assume t: "t < length (triangle_heap s)"
      and "corners (triangle_heap s ! t) = {v, nb0, nb1}"
    then have "nb0 \<in> corners (triangle_heap s ! t)" by simp
    with orphan_no_triangle[OF ok nb0 o0 t] show False by simp
  qed
  from CreateTriangle_ok[OF ok v nb0 nb1 d(1)[symmetric] d(3) d(2) guard fresh, of ar ctr]
  obtain s1 where ct: "CreateTriangle ar v nb0 nb1 ctr s = Inr s1" and ok1: "topology_ok s1"
    and fr: "triangle_frame v nb0 nb1 ctr s s1"
    by blast
  note D = triangle_frameD[OF fr]
  define k where "k = length (triangle_heap s)"
  have k: "k < length (triangle_heap s1)" by (simp add: D(1) k_def)
  have co: "corners (triangle_heap s1 ! k) = {v, nb0, nb1}"
    by (simp add: D(1) k_def corners_def)
  from linking_edge_found[OF ok1 k, of v nb1] co d obtain e0 where
    e0: "e0 < length (edge_heap s1)" "GetLinkingEdge s1 v nb1 = Some e0" by auto
  from linking_edge_found[OF ok1 k, of nb0 nb1] co d obtain e1 where
    e1: "e1 < length (edge_heap s1)" "GetLinkingEdge s1 nb0 nb1 = Some e1" by auto
  from linking_edge_found[OF ok1 k, of v nb0] co d obtain e2 where
    e2: "e2 < length (edge_heap s1)" "GetLinkingEdge s1 v nb0 = Some e2" by auto
  from ct ok1 fr e0 e1 e2 show ?thesis by blast
qed

lemma orphan_not_front:
  assumes ok: "topology_ok s" and a: "a < length (vertices s)" and b: "b < length (vertices s)"
    and ab: "a \<noteq> b"
    and o: "vtype (vertices s ! a) = Orphan \<or> vtype (vertices s ! b) = Orphan"
  shows "GetLinkingEdge s a b = None"
proof -
  have "\<forall>e < length (edge_heap s). endpoints (edge_heap s ! e) \<noteq> {a, b}"
  proof (intro allI impI notI)
    fix e assume e: "e < length (edge_heap s)" and "endpoints (edge_heap s ! e) = {a, b}"
    then have "a \<in> endpoints (edge_heap s ! e)" "b \<in> endpoints (edge_heap s ! e)" by simp_all
    with o orphan_no_edge[OF ok a _ e] orphan_no_edge[OF ok b _ e] show False by blast
  qed
  then show ?thesis
    using GetLinkingEdge_None_iff[OF topology_okD(2,3,4)[OF ok] a b ab] by simp
qed

lemma TrySeed_loop_ok:
  assumes ok: "topology_ok s" and v: "v < length (vertices s)"
    and ix: "set rest \<subseteq> {..<length (vertices s)}"
    and law: "degenerate_fails ar"
  shows "\<exists>found s'. TrySeed_loop ar v r indices rest s = Inr (found, s') \<and> topology_ok s' \<and>
           length (vertices s') = length (vertices s) \<and> has_normals s' = has_normals s \<and>
           (found \<longrightarrow> edge_front s' \<noteq> [])"
  using ok v ix
proof (induction rest arbitrary: s)
  case Nil
  then show ?case by auto
next
  case (Cons nb0 later)
  note ok = Cons.prems(1) and v = Cons.prems(2)
  from Cons.prems(3) have nb0: "nb0 < length (vertices s)"
    and later: "set later \<subseteq> {..<length (vertices s)}" by auto
  note IH = Cons.IH[OF ok v later]
  show ?case
  proof (cases "vtype (vertices s ! nb0) \<noteq> Orphan \<or> nb0 = v")
    case True
    then show ?thesis using IH by auto
  next
    case False
    then have o0: "vtype (vertices s ! nb0) = Orphan" and d0: "nb0 \<noteq> v" by simp_all
    show ?thesis
    proof (cases "TrySeed_inner ar s v nb0 indices r later")
      case None
      then show ?thesis using IH o0 d0 by simp
    next
      case (Some p)
      obtain nb1 ctr where p: "p = (nb1, ctr)" by (cases p)
      from TrySeed_inner_Some[OF Some[unfolded p]] have in1: "nb1 \<in> set later"
        and o1: "vtype (vertices s ! nb1) = Orphan" and d1: "nb1 \<noteq> v"
        and seed: "TryTriangleSeed ar s v nb0 nb1 indices r = Some ctr" by blast+
      from in1 later have nb1: "nb1 < length (vertices s)" by auto
      have d01: "nb0 \<noteq> nb1" by (rule TryTriangleSeed_distinct[OF law seed])
      have nf: "\<not> is_not_front s (GetLinkingEdge s v nb1)"
        "\<not> is_not_front s (GetLinkingEdge s nb0 nb1)"
        "\<not> is_not_front s (GetLinkingEdge s v nb0)"
        using orphan_not_front[OF ok v nb1 d1[symmetric]] orphan_not_front[OF ok nb0 nb1 d01]
          orphan_not_front[OF ok v nb0 d0[symmetric]] o0 o1
        by (simp_all add: is_not_front_def)
      from seed_create[OF ok v nb0 nb1 o0 o1 d0 d1 d01, of ar ctr] obtain s1 e0 e1 e2 where
        ct: "CreateTriangle ar v nb0 nb1 ctr s = Inr s1" and ok1: "topology_ok s1"
        and fr: "triangle_frame v nb0 nb1 ctr s s1"
        and g: "GetLinkingEdge s1 v nb1 = Some e0" "GetLinkingEdge s1 nb0 nb1 = Some e1"
          "GetLinkingEdge s1 v nb0 = Some e2"
        and l: "e0 < length (edge_heap s1)" "e1 < length (edge_heap s1)"
          "e2 < length (edge_heap s1)"
        by blast
      note D = triangle_frameD[OF fr]
      define s2 where "s2 = push_front_if_front e2 (push_front_if_front e1
                                (push_front_if_front e0 s1))"
      have ok2: "topology_ok s2"
        unfolding s2_def
        by (intro topology_ok_push_front_if_front ok1) (simp_all add: l)
      have s2: "length (vertices s2) = length (vertices s)" "has_normals s2 = has_normals s"
        using D by (simp_all add: s2_def)
      have eq: "TrySeed_loop ar v r indices (nb0 # later) s =
          (if length (edge_front s2) > 0 then Inr (True, s2)
           else TrySeed_loop ar v r indices later s2)"
        using o0 d0 Some p nf ct g by (simp add: s2_def Let_def)
      show ?thesis
      proof (cases "length (edge_front s2) > 0")
        case True
        with eq ok2 s2 show ?thesis by auto
      next
        case False
        from Cons.IH[OF ok2, of ] v later s2 obtain found s' where
          "TrySeed_loop ar v r indices later s2 = Inr (found, s')" "topology_ok s'"
          "length (vertices s') = length (vertices s2)" "has_normals s' = has_normals s2"
          "found \<longrightarrow> edge_front s' \<noteq> []"
          by auto
        with eq False s2 show ?thesis by auto
      qed
    qed
  qed
qed

lemma TrySeed_ok:
  assumes ok: "topology_ok s" and v: "v < length (vertices s)" and law: "degenerate_fails ar"
  shows "\<exists>found s'. TrySeed ar v r s = Inr (found, s') \<and> topology_ok s' \<and>
           length (vertices s') = length (vertices s) \<and> has_normals s' = has_normals s \<and>
           (found \<longrightarrow> edge_front s' \<noteq> [])"
proof -
  let ?ix = "SearchRadius s (point (vertices s ! v)) (fmul ar (lit ar 2) r)"
  from topology_okD(9)[OF ok] have "set ?ix \<subseteq> {..<length (vertices s)}"
    unfolding index_ok_def by blast
  from TrySeed_loop_ok[OF ok v this law, of r ?ix] ok show ?thesis
    unfolding TrySeed_def Let_def by auto
qed

subsection \<open>The border revisit\<close>

lemma reactivate_ok:
  assumes ok: "topology_ok W" and b: "border_edges W = kept @ edge # rest"
  shows "topology_ok ((retype edge Front W)\<lparr>edge_front := edge_front W @ [edge],
                                             border_edges := kept @ rest\<rparr>)"
    (is "topology_ok ?s")
proof -
  from ok have r: "rest_ok W" and ty: "types_ok W" and q: "queues_ok W"
    by (simp_all add: topology_ok_rest)
  from q b have e: "edge < length (edge_heap W)" and d: "edge \<notin> set kept" "edge \<notin> set rest"
    and sub: "set kept \<subseteq> {..<length (edge_heap W)}" "set rest \<subseteq> {..<length (edge_heap W)}"
    and dist: "distinct (kept @ rest)"
    unfolding queues_ok_def by auto
  from ty e b have bt: "etype (edge_heap W ! edge) = Border"
    unfolding types_ok_def by simp
  with ty e have t1: "triangle1 (edge_heap W ! edge) = None"
    unfolding types_ok_def by (metis EdgeType.distinct(3))
  have 1: "rest_ok ?s"
    by (rule rest_ok_cong[OF rest_ok_retype[OF r, of edge Front]]) simp_all
  have 2: "types_ok ?s"
    unfolding types_ok_def
  proof (intro allI impI)
    fix x assume "x < length (edge_heap ?s)"
    then have x: "x < length (edge_heap W)" by simp
    show "(etype (edge_heap ?s ! x) = Inner \<longleftrightarrow> triangle1 (edge_heap ?s ! x) \<noteq> None) \<and>
          (etype (edge_heap ?s ! x) = Border \<longleftrightarrow> x \<in> set (border_edges ?s))"
    proof (cases "x = edge")
      case True
      with x t1 d show ?thesis by simp
    next
      case False
      with x ty b show ?thesis unfolding types_ok_def by simp
    qed
  qed
  have 3: "queues_ok ?s"
    using q sub dist e unfolding queues_ok_def by simp
  from 1 2 3 show ?thesis by (simp add: topology_ok_rest)
qed

lemma border_edge_triangle:
  assumes ok: "topology_ok W" and e: "edge \<in> set (border_edges W)"
  shows "\<exists>t. triangle0 (edge_heap W ! edge) = Some t"
proof -
  from topology_okD(8)[OF ok] e have "edge < length (edge_heap W)"
    unfolding queues_ok_def by auto
  with topology_okD(5)[OF ok] show ?thesis unfolding slots_ok_def by auto
qed

text \<open>The scan keeps the invariant, with the edges still to visit counted in the border
  list.\<close>

lemma update_border_edges_ok:
  assumes "topology_ok (s\<lparr>border_edges := border_edges s @ rest\<rparr>)"
  shows "\<exists>s'. update_border_edges ar r rest s = Inr s' \<and> topology_ok s' \<and>
           length (vertices s') = length (vertices s) \<and> has_normals s' = has_normals s \<and>
           triangle_heap s' = triangle_heap s \<and> mesh_triangles s' = mesh_triangles s"
  using assms
proof (induction rest arbitrary: s)
  case Nil
  then show ?case by simp
next
  case (Cons edge rest)
  let ?W = "s\<lparr>border_edges := border_edges s @ edge # rest\<rparr>"
  note ok = Cons.prems
  from border_edge_triangle[OF ok, of edge] obtain t where
    t: "triangle0 (edge_heap s ! edge) = Some t" by auto
  let ?keep = "s\<lparr>border_edges := border_edges s @ [edge]\<rparr>"
  let ?front = "s\<lparr>edge_heap := (edge_heap s)[edge := (edge_heap s ! edge)\<lparr>etype := Front\<rparr>],
                  edge_front := edge_front s @ [edge]\<rparr>"
  have keep: "topology_ok (?keep\<lparr>border_edges := border_edges ?keep @ rest\<rparr>)"
    using ok by simp
  have "?front\<lparr>border_edges := border_edges ?front @ rest\<rparr> =
        (retype edge Front ?W)\<lparr>edge_front := edge_front ?W @ [edge],
                                border_edges := border_edges s @ rest\<rparr>"
    by (simp add: retype_def)
  with reactivate_ok[OF ok, of "border_edges s" edge rest]
  have front: "topology_ok (?front\<lparr>border_edges := border_edges ?front @ rest\<rparr>)"
    by simp
  from Cons.IH[OF keep] obtain s1 where
    k: "update_border_edges ar r rest ?keep = Inr s1" "topology_ok s1"
      "length (vertices s1) = length (vertices s)" "has_normals s1 = has_normals s"
      "triangle_heap s1 = triangle_heap s" "mesh_triangles s1 = mesh_triangles s"
    by auto
  from Cons.IH[OF front] obtain s2 where
    f: "update_border_edges ar r rest ?front = Inr s2" "topology_ok s2"
      "length (vertices s2) = length (vertices s)" "has_normals s2 = has_normals s"
      "triangle_heap s2 = triangle_heap s" "mesh_triangles s2 = mesh_triangles s"
    by auto
  show ?case
    using t k f by (simp add: Let_def split: option.splits)
qed

lemma border_scan_ok:
  assumes ok: "topology_ok s"
  shows "\<exists>s'. update_border_edges ar r (border_edges s) (s\<lparr>border_edges := []\<rparr>) = Inr s' \<and>
           topology_ok s' \<and> length (vertices s') = length (vertices s) \<and>
           has_normals s' = has_normals s \<and> triangle_heap s' = triangle_heap s \<and>
           mesh_triangles s' = mesh_triangles s"
  using update_border_edges_ok[of "s\<lparr>border_edges := []\<rparr>" "border_edges s" ar r] ok
  by simp

subsection \<open>The invariant holds in every reachable state\<close>

lemma BallPivoting_new_simps [simp]:
  "has_normals (BallPivoting_new kdtree pcd) = HasNormals pcd"
  "SearchRadius (BallPivoting_new kdtree pcd) = kdtree"
  "edge_front (BallPivoting_new kdtree pcd) = []"
  "border_edges (BallPivoting_new kdtree pcd) = []"
  "edge_heap (BallPivoting_new kdtree pcd) = []"
  "triangle_heap (BallPivoting_new kdtree pcd) = []"
  "mesh_triangles (BallPivoting_new kdtree pcd) = []"
  "mesh_triangle_normals (BallPivoting_new kdtree pcd) = []"
  "length (vertices (BallPivoting_new kdtree pcd)) = length (points pcd)"
  by (simp_all add: BallPivoting_new_def)

lemma BallPivoting_new_vertex [simp]:
  assumes "v < length (points pcd)"
  shows "edges (vertices (BallPivoting_new kdtree pcd) ! v) = []"
    and "vtype (vertices (BallPivoting_new kdtree pcd) ! v) = Orphan"
    and "point (vertices (BallPivoting_new kdtree pcd) ! v) = points pcd ! v"
    and "normal (vertices (BallPivoting_new kdtree pcd) ! v) = normals pcd ! v"
  using assms by (simp_all add: BallPivoting_new_def)

lemma topology_ok_new:
  assumes "\<forall>q r. set (kdtree q r) \<subseteq> {..<length (points pcd)}"
  shows "topology_ok (BallPivoting_new kdtree pcd)"
proof -
  let ?s = "BallPivoting_new kdtree pcd"
  have "edges_ok ?s" "unique_edges ?s" "slots_ok ?s" "types_ok ?s" "triangles_ok ?s"
    "queues_ok ?s"
    by (simp_all add: edges_ok_def unique_edges_def slots_ok_def types_ok_def triangles_ok_def
        queues_ok_def)
  moreover have "vertices_ok ?s" by (simp add: vertices_ok_def)
  moreover have "index_ok ?s" using assms by (simp add: index_ok_def)
  moreover have "orphans_ok ?s" by (simp add: orphans_ok_def)
  ultimately show ?thesis by (simp add: topology_ok_def store_ok_def)
qed

subsection \<open>The run returns\<close>

lemma FindSeedTriangle_loop_ok:
  assumes "topology_ok s" and "set vs \<subseteq> {..<length (vertices s)}"
    and law: "degenerate_fails ar"
  shows "\<exists>s'. FindSeedTriangle_loop ar it r vs s = Some (Inr s') \<and> topology_ok s' \<and>
           length (vertices s') = length (vertices s) \<and> has_normals s' = has_normals s \<and>
           (engine_step ar it)\<^sup>*\<^sup>* s s'"
  using assms(1,2)
proof (induction vs arbitrary: s)
  case Nil
  then show ?case by simp
next
  case (Cons vidx rest)
  note ok = Cons.prems(1)
  from Cons.prems(2) have v: "vidx < length (vertices s)"
    and rest: "set rest \<subseteq> {..<length (vertices s)}" by auto
  show ?case
  proof (cases "vtype (vertices s ! vidx) = Orphan")
    case False
    with Cons.IH[OF ok rest] show ?thesis by simp
  next
    case True
    from TrySeed_ok[OF ok v law, of r] obtain found s1 where
      ts: "TrySeed ar vidx r s = Inr (found, s1)" and ok1: "topology_ok s1"
      and l1: "length (vertices s1) = length (vertices s)"
      and h1: "has_normals s1 = has_normals s" by blast
    show ?thesis
    proof (cases found)
      case False
      from Cons.IH[OF ok1, of ] rest l1 obtain s' where
        "FindSeedTriangle_loop ar it r rest s1 = Some (Inr s')" "topology_ok s'"
        "length (vertices s') = length (vertices s1)" "has_normals s' = has_normals s1"
        and steps: "(engine_step ar it)\<^sup>*\<^sup>* s1 s'"
        by auto
      moreover have "(engine_step ar it)\<^sup>*\<^sup>* s s'"
        by (rule converse_rtranclp_into_rtranclp[OF engine_TrySeed[OF v ts] steps])
      ultimately show ?thesis using True ts False l1 h1 by simp
    next
      case found: True
      from ExpandTriangulation_terminates[OF ok1, of ar it r] obtain s2 where
        ex: "ExpandTriangulation ar it r s1 = Some (Inr s2)" and ok2: "topology_ok s2"
        and l2: "length (vertices s2) = length (vertices s1)"
        and h2: "has_normals s2 = has_normals s1"
        and steps1: "(engine_step ar it)\<^sup>*\<^sup>* s1 s2" by blast
      from Cons.IH[OF ok2] rest l1 l2 obtain s' where
        "FindSeedTriangle_loop ar it r rest s2 = Some (Inr s')" "topology_ok s'"
        "length (vertices s') = length (vertices s2)" "has_normals s' = has_normals s2"
        and steps2: "(engine_step ar it)\<^sup>*\<^sup>* s2 s'"
        by auto
      moreover have "(engine_step ar it)\<^sup>*\<^sup>* s s'"
        using converse_rtranclp_into_rtranclp[OF engine_TrySeed[OF v ts] steps1] steps2
        by (rule rtranclp_trans)
      ultimately show ?thesis using True ts found ex l1 h1 l2 h2 by simp
    qed
  qed
qed

lemma FindSeedTriangle_ok:
  assumes "topology_ok s" and law: "degenerate_fails ar"
  shows "\<exists>s'. FindSeedTriangle ar it r s = Some (Inr s') \<and> topology_ok s' \<and>
           length (vertices s') = length (vertices s) \<and> has_normals s' = has_normals s \<and>
           (engine_step ar it)\<^sup>*\<^sup>* s s'"
  unfolding FindSeedTriangle_def
  by (rule FindSeedTriangle_loop_ok[OF assms(1) _ law]) auto

lemma Run_radius_ok:
  assumes ok: "topology_ok s" and r: "\<not> fle ar r (lit ar 0)" and law: "degenerate_fails ar"
  shows "\<exists>s'. Run_radius ar it r s = Some (Inr s') \<and> topology_ok s' \<and>
           length (vertices s') = length (vertices s) \<and> has_normals s' = has_normals s \<and>
           (engine_step ar it)\<^sup>*\<^sup>* s s'"
proof -
  from border_scan_ok[OF ok, of ar r] obtain s1 where
    b: "update_border_edges ar r (border_edges s) (s\<lparr>border_edges := []\<rparr>) = Inr s1"
    and ok1: "topology_ok s1" and l1: "length (vertices s1) = length (vertices s)"
    and h1: "has_normals s1 = has_normals s" by blast
  note first = engine_border[OF b, of it]
  show ?thesis
  proof (cases "edge_front s1 = []")
    case True
    from FindSeedTriangle_ok[OF ok1 law, of it r] obtain s' where
      "FindSeedTriangle ar it r s1 = Some (Inr s')" "topology_ok s'"
      "length (vertices s') = length (vertices s1)" "has_normals s' = has_normals s1"
      and steps: "(engine_step ar it)\<^sup>*\<^sup>* s1 s'" by blast
    moreover have "(engine_step ar it)\<^sup>*\<^sup>* s s'"
      by (rule converse_rtranclp_into_rtranclp[OF first steps])
    ultimately show ?thesis using True b r l1 h1 by (simp add: Run_radius_def)
  next
    case False
    from ExpandTriangulation_terminates[OF ok1, of ar it r] obtain s' where
      "ExpandTriangulation ar it r s1 = Some (Inr s')" "topology_ok s'"
      "length (vertices s') = length (vertices s1)" "has_normals s' = has_normals s1"
      and steps: "(engine_step ar it)\<^sup>*\<^sup>* s1 s'" by blast
    moreover have "(engine_step ar it)\<^sup>*\<^sup>* s s'"
      by (rule converse_rtranclp_into_rtranclp[OF first steps])
    ultimately show ?thesis using False b r l1 h1 by (simp add: Run_radius_def)
  qed
qed

lemma Run_radius_invalid:
  "fle ar r (lit ar 0) \<Longrightarrow>
   Run_radius ar it r s = Some (Inl (LogError ''got an invalid, negative radius as parameter''))"
  by (simp add: Run_radius_def)

lemma Run_loop_ok:
  assumes ok: "topology_ok s" and law: "degenerate_fails ar"
  shows "if \<forall>r \<in> set radii. \<not> fle ar r (lit ar 0)
         then \<exists>s'. Run_loop ar it radii s = Some (Inr s') \<and> topology_ok s' \<and>
                length (vertices s') = length (vertices s) \<and> (engine_step ar it)\<^sup>*\<^sup>* s s'
         else Run_loop ar it radii s =
                Some (Inl (LogError ''got an invalid, negative radius as parameter''))"
  using ok
proof (induction radii arbitrary: s)
  case Nil
  then show ?case by simp
next
  case (Cons r radii)
  show ?case
  proof (cases "\<not> fle ar r (lit ar 0)")
    case False
    then show ?thesis by (auto simp: Run_radius_invalid)
  next
    case True
    from Run_radius_ok[OF Cons.prems True law, of it] obtain s1 where
      rr: "Run_radius ar it r s = Some (Inr s1)" and ok1: "topology_ok s1"
      and l1: "length (vertices s1) = length (vertices s)"
      and steps: "(engine_step ar it)\<^sup>*\<^sup>* s s1" by blast
    show ?thesis
    proof (cases "\<forall>r \<in> set radii. \<not> fle ar r (lit ar 0)")
      case False
      with Cons.IH[OF ok1] True rr show ?thesis by auto
    next
      case all: True
      with Cons.IH[OF ok1] obtain s' where
        "Run_loop ar it radii s1 = Some (Inr s')" "topology_ok s'"
        "length (vertices s') = length (vertices s1)"
        and steps': "(engine_step ar it)\<^sup>*\<^sup>* s1 s'" by auto
      moreover have "(engine_step ar it)\<^sup>*\<^sup>* s s'" using steps steps' by (rule rtranclp_trans)
      ultimately show ?thesis using all True rr l1 by auto
    qed
  qed
qed

subsection \<open>The first slot of an edge\<close>

lemma AddAdjacentTriangle_first:
  assumes "AddAdjacentTriangle ar vs ts k e = Inr e'" and "triangle0 e \<noteq> None"
  shows "triangle0 e' = triangle0 e"
  using assms by (auto simp: AddAdjacentTriangle_def split: if_splits)

lemma CreateTriangle_side_first:
  assumes c: "CreateTriangle_side ar k a b s = Inr s'" and e: "e < length (edge_heap s)"
    and t: "triangle0 (edge_heap s ! e) \<noteq> None"
  shows "triangle0 (edge_heap s' ! e) = triangle0 (edge_heap s ! e)"
proof (cases "GetLinkingEdge s a b")
  case None
  with c obtain e' where "edge_heap s' = (edge_heap s @ [new_edge a b])[length (edge_heap s) := e']"
    unfolding CreateTriangle_side_def by (auto split: sum.splits)
  with e show ?thesis by (simp add: nth_append)
next
  case (Some x)
  with c obtain e' where a: "AddAdjacentTriangle ar (vertices s) (triangle_heap s) k (edge_heap s ! x) = Inr e'"
    and h: "edge_heap s' = (edge_heap s)[x := e']"
    unfolding CreateTriangle_side_def by (auto split: sum.splits)
  show ?thesis
  proof (cases "x = e")
    case True
    with AddAdjacentTriangle_first[OF a] t h e show ?thesis by simp
  next
    case False
    with h show ?thesis by simp
  qed
qed

lemma CreateTriangle_side_length:
  assumes "CreateTriangle_side ar k a b s = Inr s'"
  shows "length (edge_heap s) \<le> length (edge_heap s')"
  using assms unfolding CreateTriangle_side_def
  by (auto split: sum.splits option.splits)

lemma CreateTriangle_first:
  assumes c: "CreateTriangle ar v0 v1 v2 center s = Inr s'" and e: "e < length (edge_heap s)"
    and t: "triangle0 (edge_heap s ! e) \<noteq> None"
  shows "triangle0 (edge_heap s' ! e) = triangle0 (edge_heap s ! e)"
proof -
  define k where "k = length (triangle_heap s)"
  define s0 where "s0 = s\<lparr>triangle_heap := triangle_heap s @
                  [\<lparr>vert0 = v0, vert1 = v1, vert2 = v2, ball_center = center\<rparr>]\<rparr>"
  from c obtain s1 s2 s3 where 1: "CreateTriangle_side ar k v0 v1 s0 = Inr s1"
    and 2: "CreateTriangle_side ar k v1 v2 s1 = Inr s2"
    and 3: "CreateTriangle_side ar k v2 v0 s2 = Inr s3"
    and h: "edge_heap s' = edge_heap s3"
    unfolding CreateTriangle_def Let_def k_def s0_def
    by (auto split: sum.splits simp: emit_triangle_def update_types_def Let_def)
  have e0: "e < length (edge_heap s0)" and t0: "triangle0 (edge_heap s0 ! e) \<noteq> None"
    using e t by (simp_all add: s0_def)
  note a = CreateTriangle_side_first[OF 1 e0 t0]
  have e1: "e < length (edge_heap s1)" using CreateTriangle_side_length[OF 1] e0 by simp
  have t1: "triangle0 (edge_heap s1 ! e) \<noteq> None" using a t0 by simp
  note b = CreateTriangle_side_first[OF 2 e1 t1]
  have e2: "e < length (edge_heap s2)" using CreateTriangle_side_length[OF 2] e1 by simp
  have t2: "triangle0 (edge_heap s2 ! e) \<noteq> None" using b t1 by simp
  note d = CreateTriangle_side_first[OF 3 e2 t2]
  show ?thesis using a b d h by (simp add: s0_def)
qed

subsection \<open>Slots are never emptied\<close>

lemma slots_kept_refl: "slots_kept s s"
  by (simp add: slots_kept_def)

lemma slots_kept_trans:
  assumes "slots_kept s s1" and "slots_kept s1 s2"
  shows "slots_kept s s2"
  unfolding slots_kept_def
proof (intro conjI allI impI)
  show "length (edge_heap s) \<le> length (edge_heap s2)"
    using assms unfolding slots_kept_def by simp
next
  fix e assume e: "e < length (edge_heap s)"
  then have e1: "e < length (edge_heap s1)" using assms(1) unfolding slots_kept_def by simp
  from assms(1) e have a: "triangle0 (edge_heap s1 ! e) = triangle0 (edge_heap s ! e)"
    "slots (edge_heap s ! e) \<subseteq> slots (edge_heap s1 ! e)"
    unfolding slots_kept_def by blast+
  from assms(2) e1 have b: "triangle0 (edge_heap s2 ! e) = triangle0 (edge_heap s1 ! e)"
    "slots (edge_heap s1 ! e) \<subseteq> slots (edge_heap s2 ! e)"
    unfolding slots_kept_def by blast+
  show "triangle0 (edge_heap s2 ! e) = triangle0 (edge_heap s ! e)" using a b by simp
  show "slots (edge_heap s ! e) \<subseteq> slots (edge_heap s2 ! e)" using a b by blast
qed

lemma slots_kept_same: "edge_heap s' = edge_heap s \<Longrightarrow> slots_kept s s'"
  by (simp add: slots_kept_def)

lemma slots_kept_retype: "slots_kept s (retype e ty s)"
  by (simp add: slots_kept_def)

lemma slots_kept_mark_border: "slots_kept s (mark_border e s)"
proof -
  have "slots_kept s (retype e Border s)" by (rule slots_kept_retype)
  moreover have "slots_kept (retype e Border s) (mark_border e s)"
    by (rule slots_kept_same) (simp add: mark_border_eq)
  ultimately show ?thesis by (rule slots_kept_trans)
qed

lemma slots_kept_CreateTriangle:
  assumes ok: "topology_ok s" and c: "CreateTriangle ar v0 v1 v2 center s = Inr s'"
    and fr: "triangle_frame v0 v1 v2 center s s'"
  shows "slots_kept s s'"
  unfolding slots_kept_def
proof (intro conjI allI impI)
  show "length (edge_heap s) \<le> length (edge_heap s')" by (rule triangle_frameD(8)[OF fr])
next
  fix e assume e: "e < length (edge_heap s)"
  with topology_okD(5)[OF ok] have "triangle0 (edge_heap s ! e) \<noteq> None"
    unfolding slots_ok_def by blast
  then show "triangle0 (edge_heap s' ! e) = triangle0 (edge_heap s ! e)"
    by (rule CreateTriangle_first[OF c e])
  show "slots (edge_heap s ! e) \<subseteq> slots (edge_heap s' ! e)"
    by (rule triangle_frame_edge(3)[OF fr e])
qed

text \<open>An inner edge stays an inner edge.\<close>

lemma Inner_kept:
  assumes ok: "topology_ok s" and ok': "topology_ok s'" and k: "slots_kept s s'"
    and e: "e < length (edge_heap s)" and i: "etype (edge_heap s ! e) = Inner"
  shows "etype (edge_heap s' ! e) = Inner"
proof -
  from k e have e': "e < length (edge_heap s')"
    and sub: "slots (edge_heap s ! e) \<subseteq> slots (edge_heap s' ! e)"
    unfolding slots_kept_def by auto
  from topology_okD(6)[OF ok] e i obtain t1 where t1: "triangle1 (edge_heap s ! e) = Some t1"
    unfolding types_ok_def by auto
  from topology_okD(5)[OF ok] e obtain t0 where t0: "triangle0 (edge_heap s ! e) = Some t0"
    and ne: "triangle0 (edge_heap s ! e) \<noteq> triangle1 (edge_heap s ! e)"
    unfolding slots_ok_def by auto
  have "t0 \<in> slots (edge_heap s ! e)" "t1 \<in> slots (edge_heap s ! e)" "t0 \<noteq> t1"
    using t0 t1 ne by (simp_all add: slots_def)
  with sub have "t0 \<in> slots (edge_heap s' ! e)" "t1 \<in> slots (edge_heap s' ! e)" "t0 \<noteq> t1"
    by blast+
  then have "triangle1 (edge_heap s' ! e) \<noteq> None" by (rule two_slots)
  with topology_okD(6)[OF ok'] e' show ?thesis unfolding types_ok_def by blast
qed

subsection \<open>The outcomes of a step\<close>

lemma GetLinkingEdge_front [simp]:
  "GetLinkingEdge (s\<lparr>edge_front := q\<rparr>) a b = GetLinkingEdge s a b"
  by (simp add: GetLinkingEdge_def)

lemma is_not_front_front [simp]: "is_not_front (s\<lparr>edge_front := q\<rparr>) e = is_not_front s e"
  by (simp add: is_not_front_def split: option.splits)

lemma candidate_rejected_front [simp]:
  "candidate_rejected ar (s\<lparr>edge_front := q\<rparr>) edge found = candidate_rejected ar s edge found"
  by (simp add: candidate_rejected_def split: option.splits)

lemma ExpandTriangulation_step_cases:
  assumes ok: "topology_ok s" and q: "edge_front s = edge # rest"
    and front: "etype (edge_heap s ! edge) = Front"
  shows "\<exists>found. FindCandidateVertex ar it edge r (s\<lparr>edge_front := rest\<rparr>) = Inr found \<and>
     (if candidate_rejected ar s edge found
      then ExpandTriangulation_step ar it r s = Inr (mark_border edge (s\<lparr>edge_front := rest\<rparr>))
      else \<exists>c ctr s2 e0 e1.
        found = Some (c, ctr) \<and>
        CreateTriangle ar (source (edge_heap s ! edge)) (target (edge_heap s ! edge)) c ctr
          (s\<lparr>edge_front := rest\<rparr>) = Inr s2 \<and>
        topology_ok s2 \<and>
        triangle_frame (source (edge_heap s ! edge)) (target (edge_heap s ! edge)) c ctr
          (s\<lparr>edge_front := rest\<rparr>) s2 \<and>
        etype (edge_heap s2 ! edge) = Inner \<and>
        GetLinkingEdge s2 c (source (edge_heap s2 ! edge)) = Some e0 \<and>
        GetLinkingEdge s2 c (target (edge_heap s2 ! edge)) = Some e1 \<and>
        e0 < length (edge_heap s2) \<and> e1 < length (edge_heap s2) \<and>
        ExpandTriangulation_step ar it r s =
          Inr (push_front_if_front e1 (push_front_if_front e0 s2)))"
proof -
  define s1 where "s1 = s\<lparr>edge_front := rest\<rparr>"
  have ok1: "topology_ok s1" and e: "edge < length (edge_heap s)"
    unfolding s1_def by (rule pop_ok[OF ok q])+
  have s1: "edge_heap s1 = edge_heap s" "vertices s1 = vertices s"
    "triangle_heap s1 = triangle_heap s" "edge_front s1 = rest" "has_normals s1 = has_normals s"
    by (simp_all add: s1_def)
  have e1: "edge < length (edge_heap s1)" using e by (simp add: s1)
  have front1: "etype (edge_heap s1 ! edge) = Front" using front by (simp add: s1)
  then have "etype (edge_heap s1 ! edge) \<noteq> Inner" by simp
  from front_edge_slots[OF ok1 e1 this] have "triangle0 (edge_heap s1 ! edge) \<noteq> None" by auto
  from FindCandidateVertex_total[OF this] obtain found where
    f: "FindCandidateVertex ar it edge r s1 = Inr found" by blast
  show ?thesis
  proof (cases found)
    case None
    have "ExpandTriangulation_step ar it r s = Inr (mark_border edge s1)"
      unfolding s1_def by (rule step_no_candidate[OF q front]) (use f None in \<open>simp add: s1_def\<close>)
    with f None show ?thesis by (auto simp: s1_def candidate_rejected_def)
  next
    case (Some p)
    obtain c ctr where p: "p = (c, ctr)" by (cases p)
    note f' = f[unfolded Some p]
    show ?thesis
    proof (cases "candidate_rejected ar s edge found")
      case True
      then have rej: "vtype (vertices s ! c) = VInner \<or>
              \<not> IsCompatible ar (vertices s) c (source (edge_heap s ! edge))
                  (target (edge_heap s ! edge)) \<or>
              is_not_front (s\<lparr>edge_front := rest\<rparr>)
                (GetLinkingEdge (s\<lparr>edge_front := rest\<rparr>) c (source (edge_heap s ! edge))) \<or>
              is_not_front (s\<lparr>edge_front := rest\<rparr>)
                (GetLinkingEdge (s\<lparr>edge_front := rest\<rparr>) c (target (edge_heap s ! edge)))"
        by (simp add: candidate_rejected_def Some p)
      have "ExpandTriangulation_step ar it r s = Inr (mark_border edge (s\<lparr>edge_front := rest\<rparr>))"
        by (rule step_rejected[OF q front f'[unfolded s1_def] rej])
      with f True show ?thesis by (auto simp: s1_def)
    next
      case False
      then have acc: "vtype (vertices s ! c) \<noteq> VInner"
        "IsCompatible ar (vertices s) c (source (edge_heap s ! edge)) (target (edge_heap s ! edge))"
        "\<not> is_not_front s1 (GetLinkingEdge s1 c (source (edge_heap s ! edge)))"
        "\<not> is_not_front s1 (GetLinkingEdge s1 c (target (edge_heap s ! edge)))"
        by (simp_all add: candidate_rejected_def Some p s1_def)
      from expand_create[OF ok1 e1 front1 f'] acc(3,4) obtain s2 e0 e1' where
        ct: "CreateTriangle ar (source (edge_heap s ! edge)) (target (edge_heap s ! edge)) c ctr s1
               = Inr s2"
        and ok2: "topology_ok s2"
        and fr: "triangle_frame (source (edge_heap s ! edge)) (target (edge_heap s ! edge))
                   c ctr s1 s2"
        and inner: "etype (edge_heap s2 ! edge) = Inner"
        and g0: "GetLinkingEdge s2 c (source (edge_heap s2 ! edge)) = Some e0"
        and g1: "GetLinkingEdge s2 c (target (edge_heap s2 ! edge)) = Some e1'"
        and l0: "e0 < length (edge_heap s2)" and l1: "e1' < length (edge_heap s2)"
        unfolding s1 by blast
      have res: "ExpandTriangulation_step ar it r s =
          Inr (push_front_if_front e1' (push_front_if_front e0 s2))"
        by (rule step_created[OF q front
              f'[unfolded s1_def] acc(1,2) acc(3)[unfolded s1_def] acc(4)[unfolded s1_def]
              ct[unfolded s1_def] g0 g1])
      from f False Some p ct ok2 fr inner g0 g1 l0 l1 res show ?thesis
        unfolding s1_def by auto
    qed
  qed
qed

subsection \<open>The edges of a seed\<close>

text \<open>After a seed on the orphan vertices \<open>nb0\<close> and \<open>nb1\<close>, a side of the new triangle that
  ends at one of them is a new front edge.\<close>

lemma seed_edge_front:
  assumes ok: "topology_ok s" and ok1: "topology_ok s1"
    and fr: "triangle_frame v0 v1 v2 ctr s s1"
    and a: "a < length (vertices s)" and b: "b < length (vertices s)" and ab: "a \<noteq> b"
    and o: "vtype (vertices s ! a) = Orphan \<or> vtype (vertices s ! b) = Orphan"
    and g: "GetLinkingEdge s1 a b = Some e"
  shows "etype (edge_heap s1 ! e) = Front" and "length (edge_heap s) \<le> e"
proof -
  note D = triangle_frameD[OF fr]
  from o obtain x where x: "x \<in> {a, b}" "x < length (vertices s)" "vtype (vertices s ! x) = Orphan"
    using a b by auto
  have a1: "a < length (vertices s1)" and b1: "b < length (vertices s1)"
    using a b D(7) by simp_all
  from GetLinkingEdge_sound[OF topology_okD(3)[OF ok1] a1 b1 ab g]
  have e1: "e < length (edge_heap s1)" and ends: "endpoints (edge_heap s1 ! e) = {a, b}"
    by simp_all
  show new: "length (edge_heap s) \<le> e"
  proof (rule ccontr)
    assume "\<not> length (edge_heap s) \<le> e"
    then have e: "e < length (edge_heap s)" by simp
    from triangle_frame_edge(2)[OF fr e] ends have "x \<in> endpoints (edge_heap s ! e)"
      using x(1) by simp
    with orphan_no_edge[OF ok x(2,3) e] show False by simp
  qed
  have nb: "etype (edge_heap s1 ! e) \<noteq> Border"
  proof
    assume "etype (edge_heap s1 ! e) = Border"
    with topology_okD(6)[OF ok1] e1 have "e \<in> set (border_edges s1)"
      unfolding types_ok_def by blast
    then have "e \<in> set (border_edges s)" by (simp add: D(4))
    with topology_okD(8)[OF ok] have "e < length (edge_heap s)"
      unfolding queues_ok_def by auto
    with new show False by simp
  qed
  have old: "\<And>t. t \<in> slots (edge_heap s1 ! e) \<Longrightarrow> t = length (triangle_heap s)"
  proof (rule ccontr)
    fix t assume t: "t \<in> slots (edge_heap s1 ! e)" and ne: "t \<noteq> length (triangle_heap s)"
    from topology_okD(5)[OF ok1] e1 t have t1: "t < length (triangle_heap s1)"
      and sub: "endpoints (edge_heap s1 ! e) \<subseteq> corners (triangle_heap s1 ! t)"
      unfolding slots_ok_def by blast+
    from t1 ne have t0: "t < length (triangle_heap s)" by (simp add: D(1))
    then have "triangle_heap s1 ! t = triangle_heap s ! t" by (simp add: D(1) nth_append)
    with sub ends x(1) have "x \<in> corners (triangle_heap s ! t)" by auto
    with orphan_no_triangle[OF ok x(2,3) t0] show False by simp
  qed
  have ni: "etype (edge_heap s1 ! e) \<noteq> Inner"
  proof
    assume "etype (edge_heap s1 ! e) = Inner"
    with topology_okD(6)[OF ok1] e1 obtain t1 where t1: "triangle1 (edge_heap s1 ! e) = Some t1"
      unfolding types_ok_def by auto
    from topology_okD(5)[OF ok1] e1 obtain t0 where t0: "triangle0 (edge_heap s1 ! e) = Some t0"
      and ne: "triangle0 (edge_heap s1 ! e) \<noteq> triangle1 (edge_heap s1 ! e)"
      unfolding slots_ok_def by auto
    have in0: "t0 \<in> slots (edge_heap s1 ! e)" and in1: "t1 \<in> slots (edge_heap s1 ! e)"
      using t0 t1 by (simp_all add: slots_def)
    have "t0 = t1" using old[OF in0] old[OF in1] by simp
    with ne t0 t1 show False by simp
  qed
  from nb ni show "etype (edge_heap s1 ! e) = Front"
    by (cases "etype (edge_heap s1 ! e)") simp_all
qed

text \<open>The result of \<^verbatim>\<open>TrySeed\<close>: without a seed the engine is unchanged; with a seed, the
  triangle has been created and its three sides have been pushed at the front of the queue,
  the edge between \<open>v\<close> and \<open>nb1\<close> first and the edge between \<open>v\<close> and \<open>nb0\<close> last.\<close>

lemma TrySeed_loop_result:
  assumes ok: "topology_ok s" and v: "v < length (vertices s)"
    and ix: "set rest \<subseteq> {..<length (vertices s)}"
    and res: "TrySeed_loop ar v r indices rest s = Inr (found, s')"
    and law: "degenerate_fails ar"
  shows "if found
     then \<exists>nb0 nb1 ctr s1 e0 e1 e2.
        CreateTriangle ar v nb0 nb1 ctr s = Inr s1 \<and> topology_ok s1 \<and>
        triangle_frame v nb0 nb1 ctr s s1 \<and>
        GetLinkingEdge s1 v nb1 = Some e0 \<and> GetLinkingEdge s1 nb0 nb1 = Some e1 \<and>
        GetLinkingEdge s1 v nb0 = Some e2 \<and>
        s' = s1\<lparr>edge_front := e2 # e1 # e0 # edge_front s\<rparr>
     else s' = s"
  using ix res
proof (induction rest)
  case Nil
  then show ?case by auto
next
  case (Cons nb0 later)
  from Cons.prems(1) have nb0: "nb0 < length (vertices s)"
    and later: "set later \<subseteq> {..<length (vertices s)}" by auto
  note IH = Cons.IH[OF later]
  note res = Cons.prems(2)
  show ?case
  proof (cases "vtype (vertices s ! nb0) \<noteq> Orphan \<or> nb0 = v")
    case True
    with res have "TrySeed_loop ar v r indices later s = Inr (found, s')"
      by (auto split: if_splits)
    then show ?thesis by (rule IH)
  next
    case False
    then have o0: "vtype (vertices s ! nb0) = Orphan" and d0: "nb0 \<noteq> v" by simp_all
    show ?thesis
    proof (cases "TrySeed_inner ar s v nb0 indices r later")
      case None
      with res o0 d0 have "TrySeed_loop ar v r indices later s = Inr (found, s')" by simp
      then show ?thesis by (rule IH)
    next
      case (Some p)
      obtain nb1 ctr where p: "p = (nb1, ctr)" by (cases p)
      from TrySeed_inner_Some[OF Some[unfolded p]] have in1: "nb1 \<in> set later"
        and o1: "vtype (vertices s ! nb1) = Orphan" and d1: "nb1 \<noteq> v"
        and seed: "TryTriangleSeed ar s v nb0 nb1 indices r = Some ctr" by blast+
      from in1 later have nb1: "nb1 < length (vertices s)" by auto
      have d01: "nb0 \<noteq> nb1" by (rule TryTriangleSeed_distinct[OF law seed])
      have nf: "\<not> is_not_front s (GetLinkingEdge s v nb1)"
        "\<not> is_not_front s (GetLinkingEdge s nb0 nb1)"
        "\<not> is_not_front s (GetLinkingEdge s v nb0)"
        using orphan_not_front[OF ok v nb1 d1[symmetric]] orphan_not_front[OF ok nb0 nb1 d01]
          orphan_not_front[OF ok v nb0 d0[symmetric]] o0 o1
        by (simp_all add: is_not_front_def)
      from seed_create[OF ok v nb0 nb1 o0 o1 d0 d1 d01, of ar ctr] obtain s1 e0 e1 e2 where
        ct: "CreateTriangle ar v nb0 nb1 ctr s = Inr s1" and ok1: "topology_ok s1"
        and fr: "triangle_frame v nb0 nb1 ctr s s1"
        and g: "GetLinkingEdge s1 v nb1 = Some e0" "GetLinkingEdge s1 nb0 nb1 = Some e1"
          "GetLinkingEdge s1 v nb0 = Some e2"
        by blast
      note D = triangle_frameD[OF fr]
      have f: "etype (edge_heap s1 ! e0) = Front" "etype (edge_heap s1 ! e1) = Front"
        "etype (edge_heap s1 ! e2) = Front"
        using seed_edge_front(1)[OF ok ok1 fr v nb1 d1[symmetric] _ g(1)]
          seed_edge_front(1)[OF ok ok1 fr nb0 nb1 d01 _ g(2)]
          seed_edge_front(1)[OF ok ok1 fr v nb0 d0[symmetric] _ g(3)] o0 o1
        by simp_all
      have push: "push_front_if_front e2 (push_front_if_front e1 (push_front_if_front e0 s1)) =
                  s1\<lparr>edge_front := e2 # e1 # e0 # edge_front s\<rparr>"
        using f by (simp add: push_front_if_front_def D(3))
      have "TrySeed_loop ar v r indices (nb0 # later) s =
              Inr (True, s1\<lparr>edge_front := e2 # e1 # e0 # edge_front s\<rparr>)"
        using o0 d0 Some p nf ct g by (simp add: push Let_def)
      with res have "found" and "s' = s1\<lparr>edge_front := e2 # e1 # e0 # edge_front s\<rparr>" by simp_all
      with ct ok1 fr g show ?thesis by (simp only: if_True) blast
    qed
  qed
qed

lemma TrySeed_result:
  assumes ok: "topology_ok s" and v: "v < length (vertices s)"
    and res: "TrySeed ar v r s = Inr (found, s')" and law: "degenerate_fails ar"
  shows "if found
     then \<exists>nb0 nb1 ctr s1 e0 e1 e2.
        CreateTriangle ar v nb0 nb1 ctr s = Inr s1 \<and> topology_ok s1 \<and>
        triangle_frame v nb0 nb1 ctr s s1 \<and>
        GetLinkingEdge s1 v nb1 = Some e0 \<and> GetLinkingEdge s1 nb0 nb1 = Some e1 \<and>
        GetLinkingEdge s1 v nb0 = Some e2 \<and>
        s' = s1\<lparr>edge_front := e2 # e1 # e0 # edge_front s\<rparr>
     else s' = s"
proof -
  let ?ix = "SearchRadius s (point (vertices s ! v)) (fmul ar (lit ar 2) r)"
  from topology_okD(9)[OF ok] have ix: "set ?ix \<subseteq> {..<length (vertices s)}"
    unfolding index_ok_def by blast
  show ?thesis
  proof (cases "length ?ix < 3")
    case True
    with res show ?thesis by (auto simp: TrySeed_def Let_def)
  next
    case False
    with res have "TrySeed_loop ar v r ?ix ?ix s = Inr (found, s')"
      by (simp add: TrySeed_def Let_def)
    from TrySeed_loop_result[OF ok v ix this law] show ?thesis .
  qed
qed

lemma TrySeed_slots_kept:
  assumes ok: "topology_ok s" and v: "v < length (vertices s)"
    and res: "TrySeed ar v r s = Inr (found, s')" and law: "degenerate_fails ar"
  shows "slots_kept s s'"
proof (cases found)
  case False
  with TrySeed_result[OF ok v res law] show ?thesis by (simp add: slots_kept_refl)
next
  case True
  with TrySeed_result[OF ok v res law] obtain nb0 nb1 ctr s1 q where
    ct: "CreateTriangle ar v nb0 nb1 ctr s = Inr s1"
    and fr: "triangle_frame v nb0 nb1 ctr s s1" and s': "s' = s1\<lparr>edge_front := q\<rparr>"
    by auto
  have "slots_kept s s1" by (rule slots_kept_CreateTriangle[OF ok ct fr])
  moreover have "slots_kept s1 s'" by (rule slots_kept_same) (simp add: s')
  ultimately show ?thesis by (rule slots_kept_trans)
qed

lemma step_slots_kept:
  assumes ok: "topology_ok s" and ne: "edge_front s \<noteq> []"
    and res: "ExpandTriangulation_step ar it r s = Inr s'"
  shows "slots_kept s s'"
proof -
  from ne obtain edge rest where q: "edge_front s = edge # rest" by (cases "edge_front s") auto
  let ?s1 = "s\<lparr>edge_front := rest\<rparr>"
  have pop: "slots_kept s ?s1" by (rule slots_kept_same) simp
  have ok1: "topology_ok ?s1" by (rule pop_ok(1)[OF ok q])
  show ?thesis
  proof (cases "etype (edge_heap s ! edge) = Front")
    case False
    from step_stale[OF q False, of ar it r] res pop show ?thesis by simp
  next
    case True
    from ExpandTriangulation_step_cases[OF ok q True, of ar it r] obtain found where
      c: "if candidate_rejected ar s edge found
      then ExpandTriangulation_step ar it r s = Inr (mark_border edge ?s1)
      else \<exists>c ctr s2 e0 e1.
        found = Some (c, ctr) \<and>
        CreateTriangle ar (source (edge_heap s ! edge)) (target (edge_heap s ! edge)) c ctr
          ?s1 = Inr s2 \<and>
        topology_ok s2 \<and>
        triangle_frame (source (edge_heap s ! edge)) (target (edge_heap s ! edge)) c ctr
          ?s1 s2 \<and>
        etype (edge_heap s2 ! edge) = Inner \<and>
        GetLinkingEdge s2 c (source (edge_heap s2 ! edge)) = Some e0 \<and>
        GetLinkingEdge s2 c (target (edge_heap s2 ! edge)) = Some e1 \<and>
        e0 < length (edge_heap s2) \<and> e1 < length (edge_heap s2) \<and>
        ExpandTriangulation_step ar it r s =
          Inr (push_front_if_front e1 (push_front_if_front e0 s2))"
      by blast
    show ?thesis
    proof (cases "candidate_rejected ar s edge found")
      case True
      with c res have "s' = mark_border edge ?s1" by simp
      with slots_kept_trans[OF pop slots_kept_mark_border[of ?s1 edge]] show ?thesis by simp
    next
      case False
      with c obtain c' ctr s2 e0 e1 where
        ct: "CreateTriangle ar (source (edge_heap s ! edge)) (target (edge_heap s ! edge)) c' ctr
          ?s1 = Inr s2"
        and fr: "triangle_frame (source (edge_heap s ! edge)) (target (edge_heap s ! edge)) c' ctr
          ?s1 s2"
        and r: "ExpandTriangulation_step ar it r s =
          Inr (push_front_if_front e1 (push_front_if_front e0 s2))"
        by auto
      have "slots_kept ?s1 s2" by (rule slots_kept_CreateTriangle[OF ok1 ct fr])
      moreover have "slots_kept s2 s'"
        by (rule slots_kept_same) (use r res in auto)
      ultimately show ?thesis using pop slots_kept_trans by blast
    qed
  qed
qed

subsection \<open>The result of the border revisit\<close>

lemma update_border_edges_Cons:
  assumes "triangle0 (edge_heap s ! edge) \<noteq> None"
  shows "update_border_edges ar r (edge # rest) s =
    (if revisit_succeeds ar s r edge
     then update_border_edges ar r rest
            (s\<lparr>edge_heap := (edge_heap s)[edge := (edge_heap s ! edge)\<lparr>etype := Front\<rparr>],
               edge_front := edge_front s @ [edge]\<rparr>)
     else update_border_edges ar r rest (s\<lparr>border_edges := border_edges s @ [edge]\<rparr>))"
  using assms
  by (auto simp: revisit_succeeds_def border_ball_empty_def Let_def split: option.splits)

lemma revisit_succeeds_cong:
  assumes "triangle0 (edge_heap s' ! e) = triangle0 (edge_heap s ! e)"
    and "vertices s' = vertices s" and "triangle_heap s' = triangle_heap s"
    and "SearchRadius s' = SearchRadius s"
  shows "revisit_succeeds ar s' r e = revisit_succeeds ar s r e"
  using assms by (simp add: revisit_succeeds_def split: option.splits)

lemma update_border_edges_scan:
  assumes "distinct rest" and "set rest \<subseteq> {..<length (edge_heap s)}"
    and "\<forall>e \<in> set rest. triangle0 (edge_heap s ! e) \<noteq> None"
  shows "\<exists>s'. update_border_edges ar r rest s = Inr s' \<and>
     border_edges s' = border_edges s @ filter (\<lambda>e. \<not> revisit_succeeds ar s r e) rest \<and>
     edge_front s' = edge_front s @ filter (revisit_succeeds ar s r) rest \<and>
     length (edge_heap s') = length (edge_heap s) \<and>
     (\<forall>e < length (edge_heap s).
        edge_heap s' ! e =
          (if e \<in> set rest \<and> revisit_succeeds ar s r e then (edge_heap s ! e)\<lparr>etype := Front\<rparr>
           else edge_heap s ! e)) \<and>
     vertices s' = vertices s \<and> triangle_heap s' = triangle_heap s \<and>
     mesh_triangles s' = mesh_triangles s \<and> SearchRadius s' = SearchRadius s \<and>
     has_normals s' = has_normals s"
  using assms
proof (induction rest arbitrary: s)
  case Nil
  then show ?case by simp
next
  case (Cons edge rest)
  from Cons.prems have d: "distinct rest" and notin: "edge \<notin> set rest"
    and e: "edge < length (edge_heap s)" and sub: "set rest \<subseteq> {..<length (edge_heap s)}"
    and t: "triangle0 (edge_heap s ! edge) \<noteq> None"
    and ts: "\<forall>e \<in> set rest. triangle0 (edge_heap s ! e) \<noteq> None"
    by auto
  define s1 where "s1 = (if revisit_succeeds ar s r edge
     then s\<lparr>edge_heap := (edge_heap s)[edge := (edge_heap s ! edge)\<lparr>etype := Front\<rparr>],
            edge_front := edge_front s @ [edge]\<rparr>
     else s\<lparr>border_edges := border_edges s @ [edge]\<rparr>)"
  have step: "update_border_edges ar r (edge # rest) s = update_border_edges ar r rest s1"
    unfolding update_border_edges_Cons[OF t] s1_def by simp
  have s1: "vertices s1 = vertices s" "triangle_heap s1 = triangle_heap s"
    "mesh_triangles s1 = mesh_triangles s" "SearchRadius s1 = SearchRadius s"
    "has_normals s1 = has_normals s" "length (edge_heap s1) = length (edge_heap s)"
    "border_edges s1 = border_edges s @ (if revisit_succeeds ar s r edge then [] else [edge])"
    "edge_front s1 = edge_front s @ (if revisit_succeeds ar s r edge then [edge] else [])"
    by (simp_all add: s1_def)
  have nth1: "\<And>x. x < length (edge_heap s) \<Longrightarrow>
      edge_heap s1 ! x = (if x = edge \<and> revisit_succeeds ar s r edge
                          then (edge_heap s ! x)\<lparr>etype := Front\<rparr> else edge_heap s ! x)"
    by (auto simp: s1_def)
  have t0: "\<And>x. x < length (edge_heap s) \<Longrightarrow>
      triangle0 (edge_heap s1 ! x) = triangle0 (edge_heap s ! x)"
    by (simp add: nth1)
  have rs: "\<And>x. x < length (edge_heap s) \<Longrightarrow> revisit_succeeds ar s1 r x = revisit_succeeds ar s r x"
    by (rule revisit_succeeds_cong) (simp_all add: t0 s1)
  have f1: "filter (revisit_succeeds ar s1 r) rest = filter (revisit_succeeds ar s r) rest"
    by (rule filter_cong) (use sub rs in auto)
  have f2: "filter (\<lambda>e. \<not> revisit_succeeds ar s1 r e) rest =
            filter (\<lambda>e. \<not> revisit_succeeds ar s r e) rest"
    by (rule filter_cong) (use sub rs in auto)
  have sub1: "set rest \<subseteq> {..<length (edge_heap s1)}" using sub by (simp add: s1)
  have ts1: "\<forall>e \<in> set rest. triangle0 (edge_heap s1 ! e) \<noteq> None"
    using ts sub t0 by auto
  from Cons.IH[OF d sub1 ts1] obtain s' where
    r: "update_border_edges ar r rest s1 = Inr s'"
    and b: "border_edges s' = border_edges s1 @ filter (\<lambda>e. \<not> revisit_succeeds ar s1 r e) rest"
    and f: "edge_front s' = edge_front s1 @ filter (revisit_succeeds ar s1 r) rest"
    and l: "length (edge_heap s') = length (edge_heap s1)"
    and n: "\<forall>e < length (edge_heap s1).
        edge_heap s' ! e =
          (if e \<in> set rest \<and> revisit_succeeds ar s1 r e then (edge_heap s1 ! e)\<lparr>etype := Front\<rparr>
           else edge_heap s1 ! e)"
    and o: "vertices s' = vertices s1" "triangle_heap s' = triangle_heap s1"
      "mesh_triangles s' = mesh_triangles s1" "SearchRadius s' = SearchRadius s1"
      "has_normals s' = has_normals s1"
    by blast
  have n': "\<forall>x < length (edge_heap s).
        edge_heap s' ! x =
          (if x \<in> set (edge # rest) \<and> revisit_succeeds ar s r x
           then (edge_heap s ! x)\<lparr>etype := Front\<rparr> else edge_heap s ! x)"
  proof (intro allI impI)
    fix x assume x: "x < length (edge_heap s)"
    with n have "edge_heap s' ! x =
          (if x \<in> set rest \<and> revisit_succeeds ar s1 r x then (edge_heap s1 ! x)\<lparr>etype := Front\<rparr>
           else edge_heap s1 ! x)" by (simp add: s1)
    then have *: "edge_heap s' ! x =
          (if x \<in> set rest \<and> revisit_succeeds ar s r x then (edge_heap s1 ! x)\<lparr>etype := Front\<rparr>
           else edge_heap s1 ! x)" by (simp only: rs[OF x])
    show "edge_heap s' ! x =
          (if x \<in> set (edge # rest) \<and> revisit_succeeds ar s r x
           then (edge_heap s ! x)\<lparr>etype := Front\<rparr> else edge_heap s ! x)"
    proof (cases "x = edge")
      case True
      with * notin have "edge_heap s' ! x = edge_heap s1 ! x" by simp
      with nth1[OF x] True show ?thesis by simp
    next
      case False
      with * nth1[OF x] show ?thesis by simp
    qed
  qed
  show ?case
    unfolding step using r b f l n' o by (simp add: s1 f1 f2)
qed

lemma border_scan_result:
  assumes ok: "topology_ok s"
  shows "\<exists>s'. update_border_edges ar r (border_edges s) (s\<lparr>border_edges := []\<rparr>) = Inr s' \<and>
     border_edges s' = filter (\<lambda>e. \<not> revisit_succeeds ar s r e) (border_edges s) \<and>
     edge_front s' = edge_front s @ filter (revisit_succeeds ar s r) (border_edges s) \<and>
     length (edge_heap s') = length (edge_heap s) \<and>
     (\<forall>e < length (edge_heap s).
        edge_heap s' ! e =
          (if e \<in> set (border_edges s) \<and> revisit_succeeds ar s r e
           then (edge_heap s ! e)\<lparr>etype := Front\<rparr> else edge_heap s ! e)) \<and>
     vertices s' = vertices s \<and> triangle_heap s' = triangle_heap s \<and>
     mesh_triangles s' = mesh_triangles s"
proof -
  let ?s = "s\<lparr>border_edges := []\<rparr>"
  from topology_okD(8)[OF ok] have d: "distinct (border_edges s)"
    and sub: "set (border_edges s) \<subseteq> {..<length (edge_heap ?s)}"
    unfolding queues_ok_def by simp_all
  have t: "\<forall>e \<in> set (border_edges s). triangle0 (edge_heap ?s ! e) \<noteq> None"
    using border_edge_triangle[OF ok] by auto
  have rs: "revisit_succeeds ar ?s r = revisit_succeeds ar s r"
    by (rule ext, rule revisit_succeeds_cong) simp_all
  have fields: "edge_heap ?s = edge_heap s" "border_edges ?s = []" "edge_front ?s = edge_front s"
    "vertices ?s = vertices s" "triangle_heap ?s = triangle_heap s"
    "mesh_triangles ?s = mesh_triangles s"
    by simp_all
  from update_border_edges_scan[OF d sub t, of ar r] show ?thesis
    unfolding rs fields by auto
qed

lemma border_scan_slots_kept:
  assumes ok: "topology_ok s"
    and res: "update_border_edges ar r (border_edges s) (s\<lparr>border_edges := []\<rparr>) = Inr s'"
  shows "slots_kept s s'"
proof -
  from border_scan_result[OF ok, of ar r] res have
    l: "length (edge_heap s') = length (edge_heap s)"
    and n: "\<forall>e < length (edge_heap s).
        edge_heap s' ! e =
          (if e \<in> set (border_edges s) \<and> revisit_succeeds ar s r e
           then (edge_heap s ! e)\<lparr>etype := Front\<rparr> else edge_heap s ! e)"
    by auto
  show ?thesis
    unfolding slots_kept_def using l n by (auto simp: slots_def)
qed

subsection \<open>The invariant holds in every reachable state\<close>

lemma engine_step_ok:
  assumes ok: "topology_ok s" and st: "engine_step ar it s s'" and law: "degenerate_fails ar"
  shows "topology_ok s' \<and> slots_kept s s' \<and> length (vertices s') = length (vertices s)"
  using st
proof (cases rule: engine_step.cases)
  case (engine_TrySeed v radius found)
  from TrySeed_ok[OF ok engine_TrySeed(1) law, of radius] engine_TrySeed(2)
    TrySeed_slots_kept[OF ok engine_TrySeed(1) engine_TrySeed(2) law]
  show ?thesis by auto
next
  case (engine_Expand radius)
  from ExpandTriangulation_step_ok[OF ok engine_Expand(1), of ar it radius] engine_Expand(2)
    step_slots_kept[OF ok engine_Expand(1) engine_Expand(2)]
  show ?thesis by auto
next
  case (engine_border radius)
  from border_scan_ok[OF ok, of ar radius] engine_border
    border_scan_slots_kept[OF ok engine_border]
  show ?thesis by auto
qed

lemma engine_steps_ok:
  assumes st: "(engine_step ar it)\<^sup>*\<^sup>* s s'" and ok: "topology_ok s"
    and law: "degenerate_fails ar"
  shows "topology_ok s' \<and> slots_kept s s' \<and> length (vertices s') = length (vertices s)"
  using st
proof (induction rule: rtranclp_induct)
  case base
  show ?case using ok by (simp add: slots_kept_refl)
next
  case (step y z)
  from engine_step_ok[OF _ step.hyps(2) law] step.IH slots_kept_trans show ?case by auto
qed

lemma reachable_law:
  assumes "reachable ar it s"
  shows "degenerate_fails ar"
  using assms by (induction rule: reachable.induct)

lemma reachable_ok:
  assumes "reachable ar it s"
  shows "topology_ok s"
  using assms
proof (induction rule: reachable.induct)
  case (reachable_new kdtree pcd)
  from reachable_new(2) show ?case by (rule topology_ok_new)
next
  case (reachable_step s s')
  from engine_step_ok[OF reachable_step.IH reachable_step.hyps(2)
      reachable_law[OF reachable_step.hyps(1)]]
  show ?case by simp
qed

lemma reachable_steps:
  assumes "(engine_step ar it)\<^sup>*\<^sup>* s s'" and "reachable ar it s"
  shows "reachable ar it s'"
  using assms by (induction rule: rtranclp_induct) (auto intro: reachable_step)

text \<open>The run on a new engine returns, and its result is a reachable state.\<close>

lemma Run_new:
  assumes law: "degenerate_fails ar"
    and ix: "\<forall>q r. set (kdtree q r) \<subseteq> {..<length (points pcd)}"
  shows "if \<not> HasNormals pcd
         then CreateFromPointCloudBallPivoting ar it kdtree pcd radii =
                Some (Inl (LogError ''ReconstructBallPivoting requires normals''))
         else if \<forall>r \<in> set radii. \<not> fle ar r (lit ar 0)
         then \<exists>s'. CreateFromPointCloudBallPivoting ar it kdtree pcd radii = Some (Inr s') \<and>
                reachable ar it s'
         else CreateFromPointCloudBallPivoting ar it kdtree pcd radii =
                Some (Inl (LogError ''got an invalid, negative radius as parameter''))"
proof -
  let ?s = "BallPivoting_new kdtree pcd"
  have clear: "?s\<lparr>mesh_triangles := []\<rparr> = ?s" by (simp add: BallPivoting_new_def)
  have ok: "topology_ok ?s" by (rule topology_ok_new[OF ix])
  have re: "reachable ar it ?s" by (rule reachable_new[OF law ix])
  show ?thesis
  proof (cases "HasNormals pcd")
    case False
    then show ?thesis by (simp add: CreateFromPointCloudBallPivoting_def Run_def)
  next
    case True
    then have run: "CreateFromPointCloudBallPivoting ar it kdtree pcd radii = Run_loop ar it radii ?s"
      by (simp add: CreateFromPointCloudBallPivoting_def Run_def clear)
    show ?thesis
    proof (cases "\<forall>r \<in> set radii. \<not> fle ar r (lit ar 0)")
      case all: True
      with Run_loop_ok[OF ok law, of radii it] obtain s' where
        "Run_loop ar it radii ?s = Some (Inr s')" and st: "(engine_step ar it)\<^sup>*\<^sup>* ?s s'"
        by auto
      with reachable_steps[OF st re] run True all show ?thesis by simp
    next
      case False
      with Run_loop_ok[OF ok law, of radii it] run True show ?thesis by simp
    qed
  qed
qed

subsection \<open>The engine on four points\<close>

lemma upt4: "[0..<4] = [0, 1, 2, 3]"
  by (simp add: upt_rec)

lemma points_parallelogram:
  "points parallelogram = [Vector3d 0 0 0, Vector3d 3 0 0, Vector3d 0 4 0, Vector3d 3 (- 4) 0]"
  by (simp add: parallelogram_def)

lemma new_engine_eq:
  "new_engine =
    \<lparr>has_normals = True,
     SearchRadius = radius_search (points parallelogram),
     edge_front = [],
     border_edges = [],
     vertices =
       [\<lparr>point = Vector3d 0 0 0, normal = Vector3d 0 0 1, edges = [], vtype = Orphan\<rparr>,
        \<lparr>point = Vector3d 3 0 0, normal = Vector3d 0 0 1, edges = [], vtype = Orphan\<rparr>,
        \<lparr>point = Vector3d 0 4 0, normal = Vector3d 0 0 1, edges = [], vtype = Orphan\<rparr>,
        \<lparr>point = Vector3d 3 (- 4) 0, normal = Vector3d 0 0 1, edges = [], vtype = Orphan\<rparr>],
     edge_heap = [],
     triangle_heap = [],
     mesh_triangles = [],
     mesh_triangle_normals = []\<rparr>"
  by (simp add: new_engine_def BallPivoting_new_def parallelogram_def upt4)

lemma search_all:
  "radius_search (points parallelogram) (Vector3d 0 0 0) 13 = [0, 1, 2, 3]"
  by (simp add: radius_search_def upt4 squaredNorm_def dot_def minus_Vector3d_def
      points_parallelogram)

lemma heron_product:
  assumes "0 \<le> a" "0 \<le> b" "0 \<le> c"
  shows "(sqrt a + sqrt b + sqrt c) * (- sqrt a + sqrt b + sqrt c) * (sqrt a - sqrt b + sqrt c)
         * (sqrt a + sqrt b - sqrt c) =
         a * (b + c - a) + b * (a + c - b) + c * (a + b - c)"
proof -
  define x y z where "x = sqrt a" and "y = sqrt b" and "z = sqrt c"
  have sq: "x * x = a" "y * y = b" "z * z = c"
    using assms by (simp_all add: x_def y_def z_def)
  have "(x + y + z) * (- x + y + z) * (x - y + z) * (x + y - z) =
        (x * x) * ((y * y) + (z * z) - (x * x)) + (y * y) * ((x * x) + (z * z) - (y * y))
        + (z * z) * ((x * x) + (y * y) - (z * z))"
    by (simp add: algebra_simps)
  then show ?thesis unfolding sq unfolding x_def y_def z_def .
qed

lemma circumradius2_eq:
  "circumradius2 v1 v2 v3 =
    squaredNorm (v3 - v2) * squaredNorm (v1 - v3) * squaredNorm (v2 - v1) /
    barycentric_sum v1 v2 v3"
  unfolding circumradius2_def barycentric_sum_def Let_def
  by (simp only: heron_product[OF squaredNorm_nonneg squaredNorm_nonneg squaredNorm_nonneg])

text \<open>The vertices of an engine on the parallelogram.\<close>

lemma on_parallelogramD:
  assumes "on_parallelogram vs"
  shows "point (vs ! 0) = Vector3d 0 0 0" "point (vs ! Suc 0) = Vector3d 3 0 0"
    "point (vs ! 2) = Vector3d 0 4 0" "point (vs ! 3) = Vector3d 3 (- 4) 0"
    "normal (vs ! 0) = Vector3d 0 0 1" "normal (vs ! Suc 0) = Vector3d 0 0 1"
    "normal (vs ! 2) = Vector3d 0 0 1" "normal (vs ! 3) = Vector3d 0 0 1"
proof -
  from assms have p: "map point vs = [Vector3d 0 0 0, Vector3d 3 0 0, Vector3d 0 4 0, Vector3d 3 (- 4) 0]"
    and n: "map normal vs = [Vector3d 0 0 1, Vector3d 0 0 1, Vector3d 0 0 1, Vector3d 0 0 1]"
    by (simp_all add: on_parallelogram_def parallelogram_def)
  from p have "length (map point vs) = 4" by simp
  then have l: "length vs = 4" by simp
  have P: "\<And>i. i < 4 \<Longrightarrow> point (vs ! i) = [Vector3d 0 0 0, Vector3d 3 0 0, Vector3d 0 4 0, Vector3d 3 (- 4) 0] ! i"
    using nth_map[of _ vs point] l p by metis
  have N: "\<And>i. i < 4 \<Longrightarrow> normal (vs ! i) = [Vector3d 0 0 1, Vector3d 0 0 1, Vector3d 0 0 1, Vector3d 0 0 1] ! i"
    using nth_map[of _ vs normal] l n by metis
  show "point (vs ! 0) = Vector3d 0 0 0" "point (vs ! Suc 0) = Vector3d 3 0 0"
    "point (vs ! 2) = Vector3d 0 4 0" "point (vs ! 3) = Vector3d 3 (- 4) 0"
    "normal (vs ! 0) = Vector3d 0 0 1" "normal (vs ! Suc 0) = Vector3d 0 0 1"
    "normal (vs ! 2) = Vector3d 0 0 1" "normal (vs ! 3) = Vector3d 0 0 1"
    using P[of 0] P[of "Suc 0"] P[of 2] P[of 3] N[of 0] N[of "Suc 0"] N[of 2] N[of 3]
    by simp_all
qed

lemmas vector_defs = squaredNorm_def dot_def cross_def vnorm_def divide_by_def scale_def
  minus_Vector3d_def plus_Vector3d_def uminus_Vector3d_def

lemma sqrt_more: "sqrt (169 / 4) = 13 / 2"
  by (rule real_sqrt_unique; simp add: power2_eq_square)

lemma IsCompatible_012:
  assumes "on_parallelogram vs"
  shows "IsCompatible exact vs 0 (Suc 0) 2"
  by (simp add: IsCompatible_exact ComputeFaceNormal_exact Let_def on_parallelogramD[OF assms]
      vector_defs sqrt_values eps16_def)

lemma IsCompatible_301:
  assumes "on_parallelogram vs"
  shows "IsCompatible exact vs 3 0 (Suc 0)"
  by (simp add: IsCompatible_exact ComputeFaceNormal_exact Let_def on_parallelogramD[OF assms]
      vector_defs sqrt_values eps16_def)

lemma ComputeBallCenter_012:
  assumes "on_parallelogram vs"
  shows "ComputeBallCenter exact vs 0 (Suc 0) 2 (13 / 2) = Some (Vector3d (3 / 2) 2 6)"
  by (simp add: ComputeBallCenter_eq circumradius2_eq barycentric_sum_def circumcenter_def
      triangle_unit_normal_def Let_def on_parallelogramD[OF assms]
      vector_defs sqrt_values eps16_def power2_eq_square)

lemma ComputeBallCenter_013:
  assumes "on_parallelogram vs"
  shows "ComputeBallCenter exact vs 0 (Suc 0) 3 (13 / 2) = Some (Vector3d (3 / 2) (- 2) 6)"
  by (simp add: ComputeBallCenter_eq circumradius2_eq barycentric_sum_def circumcenter_def
      triangle_unit_normal_def Let_def on_parallelogramD[OF assms]
      vector_defs sqrt_values eps16_def power2_eq_square)

lemma ComputeBallCenter_312:
  assumes "on_parallelogram vs"
  shows "ComputeBallCenter exact vs 3 (Suc 0) 2 (13 / 2) = None"
  by (simp add: ComputeBallCenter_eq circumradius2_eq barycentric_sum_def circumcenter_def
      triangle_unit_normal_def Let_def on_parallelogramD[OF assms]
      vector_defs sqrt_values eps16_def power2_eq_square)

lemma on_parallelogram_iff:
  "on_parallelogram vs \<longleftrightarrow>
     map point vs = [Vector3d 0 0 0, Vector3d 3 0 0, Vector3d 0 4 0, Vector3d 3 (- 4) 0] \<and>
     map normal vs = [Vector3d 0 0 1, Vector3d 0 0 1, Vector3d 0 0 1, Vector3d 0 0 1]"
  by (simp add: on_parallelogram_def parallelogram_def)

lemmas parallelogram_geometry =
  IsCompatible_012 IsCompatible_301 ComputeBallCenter_012 ComputeBallCenter_013
  ComputeBallCenter_312 on_parallelogram_iff

lemma on_parallelogram_states:
  "on_parallelogram (vertices new_engine)" "on_parallelogram (vertices seeded)"
  "on_parallelogram (vertices expanded)"
  by (simp_all add: on_parallelogram_def new_engine_eq seeded_def expanded_def parallelogram_def)

lemma search_13:
  "radius_search (points parallelogram) (Vector3d 0 0 0) 13 = [0, 1, 2, 3]"
  "radius_search (points parallelogram) (Vector3d (3 / 2) 0 0) 13 = [0, 1, 2, 3]"
  "radius_search (points parallelogram) (Vector3d 3 (- 2) 0) 13 = [0, 1, 2, 3]"
  "radius_search (points parallelogram) (Vector3d (3 / 2) (- 2) 6) (13 / 2) = [0, 1, 3]"
  by (simp_all add: radius_search_def upt4 squaredNorm_def dot_def minus_Vector3d_def
      points_parallelogram)

lemma outside_ball:
  "\<not> sqrt (297 / 4) < 13 / 2 - eps16"
proof -
  have "sqrt (169 / 4) \<le> sqrt (297 / 4)" by (simp del: real_sqrt_divide)
  with eps16_pos show ?thesis by (simp add: sqrt_more)
qed

lemma TryTriangleSeed_new:
  "TryTriangleSeed exact new_engine 0 1 2 [0, 1, 2, 3] (13 / 2) = Some (Vector3d (3 / 2) 2 6)"
  using outside_ball
  by (simp add: TryTriangleSeed_exact parallelogram_geometry GetLinkingEdge_def
      new_engine_eq vector_defs)

lemma TrySeed_inner_new:
  "TrySeed_inner exact new_engine 0 1 [0, 1, 2, 3] (13 / 2) [2, 3] = Some (2, Vector3d (3 / 2) 2 6)"
  using TryTriangleSeed_new by (simp add: new_engine_eq)

lemmas engine_defs = CreateTriangle_def CreateTriangle_side_def GetLinkingEdge_def
  AddAdjacentTriangle_exact GetOppositeVertex_def new_edge_def insert_edge_def update_types_def
  UpdateType_def emit_triangle_exact ComputeFaceNormal_exact Let_def

lemma CreateTriangle_new:
  "CreateTriangle exact 0 1 2 (Vector3d (3 / 2) 2 6) new_engine = Inr (seeded\<lparr>edge_front := []\<rparr>)"
  by (simp add: engine_defs new_engine_eq seeded_def vector_defs sqrt_values eps16_def)

lemma TrySeed_new: "TrySeed exact 0 (13 / 2) new_engine = Inr (True, seeded)"
proof -
  have v: "vtype (vertices new_engine ! 0) = Orphan" "vtype (vertices new_engine ! Suc 0) = Orphan"
    "vtype (vertices new_engine ! 2) = Orphan" "vtype (vertices new_engine ! 3) = Orphan"
    "point (vertices new_engine ! 0) = Vector3d 0 0 0"
    and i: "SearchRadius new_engine = radius_search (points parallelogram)"
    by (simp_all add: new_engine_eq)
  have g: "GetLinkingEdge new_engine 0 2 = None" "GetLinkingEdge new_engine (Suc 0) 2 = None"
    "GetLinkingEdge new_engine 0 (Suc 0) = None"
    by (simp_all add: GetLinkingEdge_def new_engine_eq)
  have h: "GetLinkingEdge seeded 0 2 = Some 2" "GetLinkingEdge seeded (Suc 0) 2 = Some (Suc 0)"
    "GetLinkingEdge seeded 0 (Suc 0) = Some 0"
    by (simp_all add: GetLinkingEdge_def seeded_def)
  have p: "push_front_if_front 0 (push_front_if_front (Suc 0) (push_front_if_front 2
             (seeded\<lparr>edge_front := []\<rparr>))) = seeded"
    by (simp add: push_front_if_front_def seeded_def)
  have q: "edge_front seeded \<noteq> []" by (simp add: seeded_def)
  show ?thesis
    unfolding TrySeed_exact Let_def i
    using TrySeed_inner_new CreateTriangle_new
    by (simp add: v search_13 g is_not_front_def h p q)
qed

lemma arccos_below_turn: "- 1 \<le> y \<Longrightarrow> y \<le> 1 \<Longrightarrow> \<not> 2 * M_PI \<le> arccos y"
  using arccos_ubound[of y] pi_less_4 by (simp add: M_PI_def)

lemma FindCandidateVertex_seeded:
  "FindCandidateVertex exact general_position 0 (13 / 2) (seeded\<lparr>edge_front := [1, 2]\<rparr>) =
     Inr (Some (3, Vector3d (3 / 2) (- 2) 6))"
  using outside_ball
  by (simp add: FindCandidateVertex_exact FindCandidateVertex_visit_exact GetOppositeVertex_def
      Let_def seeded_def search_13 general_position_def parallelogram_geometry vector_defs
      sqrt_values arccos_below_turn)

lemma CreateTriangle_seeded:
  "CreateTriangle exact 0 1 3 (Vector3d (3 / 2) (- 2) 6) (seeded\<lparr>edge_front := [1, 2]\<rparr>) =
     Inr (expanded\<lparr>edge_front := [1, 2]\<rparr>)"
  by (simp add: engine_defs seeded_def expanded_def vector_defs sqrt_values eps16_def)

lemma ExpandTriangulation_step_seeded:
  "ExpandTriangulation_step exact general_position (13 / 2) seeded = Inr expanded"
proof -
  have q: "edge_front seeded = 0 # [1, 2]" and ty: "etype (edge_heap seeded ! 0) = Front"
    and st: "source (edge_heap seeded ! 0) = 0" "target (edge_heap seeded ! 0) = 1"
    and vt: "vtype (vertices seeded ! 3) \<noteq> VInner"
    by (simp_all add: seeded_def)
  have ic: "IsCompatible exact (vertices seeded) 3 0 1"
    by (simp add: parallelogram_geometry seeded_def)
  have g: "\<not> is_not_front (seeded\<lparr>edge_front := [1, 2]\<rparr>)
               (GetLinkingEdge (seeded\<lparr>edge_front := [1, 2]\<rparr>) 3 0)"
    "\<not> is_not_front (seeded\<lparr>edge_front := [1, 2]\<rparr>)
               (GetLinkingEdge (seeded\<lparr>edge_front := [1, 2]\<rparr>) 3 1)"
    by (simp_all add: is_not_front_def GetLinkingEdge_def seeded_def)
  have e: "GetLinkingEdge (expanded\<lparr>edge_front := [1, 2]\<rparr>) 3
             (source (edge_heap (expanded\<lparr>edge_front := [1, 2]\<rparr>) ! 0)) = Some 4"
    "GetLinkingEdge (expanded\<lparr>edge_front := [1, 2]\<rparr>) 3
             (target (edge_heap (expanded\<lparr>edge_front := [1, 2]\<rparr>) ! 0)) = Some 3"
    by (simp_all add: GetLinkingEdge_def expanded_def)
  have p: "push_front_if_front 3 (push_front_if_front 4 (expanded\<lparr>edge_front := [1, 2]\<rparr>)) =
           expanded"
    by (simp add: push_front_if_front_def expanded_def)
  from step_created[of seeded 0 "[1, 2]" exact general_position "13 / 2" 3 "Vector3d (3 / 2) (- 2) 6"
      "expanded\<lparr>edge_front := [1, 2]\<rparr>" 4 3, OF q ty]
    FindCandidateVertex_seeded vt ic g CreateTriangle_seeded e
  show ?thesis unfolding st p by simp
qed

lemma FindCandidateVertex_expanded:
  "FindCandidateVertex exact general_position 3 (13 / 2) (expanded\<lparr>edge_front := [4, 1, 2]\<rparr>) =
     Inr None"
  by (simp add: FindCandidateVertex_exact FindCandidateVertex_visit_exact GetOppositeVertex_def
      Let_def expanded_def search_13 general_position_def parallelogram_geometry vector_defs
      sqrt_values)

lemma ExpandTriangulation_step_expanded:
  "ExpandTriangulation_step exact general_position (13 / 2) expanded = Inr bordered"
proof -
  have q: "edge_front expanded = 3 # [4, 1, 2]" and ty: "etype (edge_heap expanded ! 3) = Front"
    by (simp_all add: expanded_def)
  have m: "mark_border 3 (expanded\<lparr>edge_front := [4, 1, 2]\<rparr>) = bordered"
    by (simp add: mark_border_def expanded_def bordered_def)
  from step_no_candidate[OF q ty FindCandidateVertex_expanded] show ?thesis
    unfolding m .
qed

lemma update_border_edges_bordered:
  "update_border_edges exact (13 / 2) (border_edges bordered) (bordered\<lparr>border_edges := []\<rparr>) =
     Inr reactivated"
  by (simp add: bordered_def reactivated_def border_ball_empty_def search_13
      parallelogram_geometry Let_def)

subsection \<open>A whole run on the four points\<close>

lemma no_ball:
  assumes "on_parallelogram vs"
  shows "ComputeBallCenter exact vs 0 3 2 (13 / 2) = None"
    and "ComputeBallCenter exact vs (Suc 0) 2 3 (13 / 2) = None"
    and "ComputeBallCenter exact vs 2 0 3 (13 / 2) = None"
  by (simp_all add: ComputeBallCenter_eq circumradius2_eq barycentric_sum_def circumcenter_def
      triangle_unit_normal_def Let_def on_parallelogramD[OF assms]
      vector_defs sqrt_values eps16_def power2_eq_square)

lemma search_midpoints:
  "radius_search (points parallelogram) (Vector3d (3 / 2) (- 2) 0) 13 = [0, 1, 2, 3]"
  "radius_search (points parallelogram) (Vector3d (3 / 2) 2 0) 13 = [0, 1, 2, 3]"
  "radius_search (points parallelogram) (Vector3d 0 2 0) 13 = [0, 1, 2, 3]"
  by (simp_all add: radius_search_def upt4 squaredNorm_def dot_def minus_Vector3d_def
      points_parallelogram)

lemmas candidate_defs = FindCandidateVertex_exact FindCandidateVertex_visit_exact
  GetOppositeVertex_def Let_def search_13 search_midpoints general_position_def
  parallelogram_geometry no_ball vector_defs sqrt_values

lemma ExpandTriangulation_step_bordered:
  "ExpandTriangulation_step exact general_position (13 / 2) bordered =
     Inr (mark_border 4 (bordered\<lparr>edge_front := [1, 2]\<rparr>))"
proof -
  have q: "edge_front bordered = 4 # [1, 2]" and ty: "etype (edge_heap bordered ! 4) = Front"
    by (simp_all add: bordered_def)
  have f: "FindCandidateVertex exact general_position 4 (13 / 2) (bordered\<lparr>edge_front := [1, 2]\<rparr>) =
     Inr None"
    by (simp add: candidate_defs bordered_def)
  show ?thesis by (rule step_no_candidate[OF q ty f])
qed

lemma ExpandTriangulation_step_bordered2:
  "ExpandTriangulation_step exact general_position (13 / 2)
     (mark_border 4 (bordered\<lparr>edge_front := [1, 2]\<rparr>)) =
   Inr (mark_border 1 (mark_border 4 (bordered\<lparr>edge_front := [2]\<rparr>)))"
proof -
  let ?s = "mark_border 4 (bordered\<lparr>edge_front := [1, 2]\<rparr>)"
  have q: "edge_front ?s = 1 # [2]" and ty: "etype (edge_heap ?s ! 1) = Front"
    by (simp_all add: bordered_def mark_border_def)
  have f: "FindCandidateVertex exact general_position 1 (13 / 2) (?s\<lparr>edge_front := [2]\<rparr>) = Inr None"
    by (simp add: candidate_defs bordered_def mark_border_def)
  have "mark_border 1 (?s\<lparr>edge_front := [2]\<rparr>) =
        mark_border 1 (mark_border 4 (bordered\<lparr>edge_front := [2]\<rparr>))"
    by (simp add: mark_border_def)
  with step_no_candidate[OF q ty f] show ?thesis by simp
qed

lemma ExpandTriangulation_step_bordered3:
  "ExpandTriangulation_step exact general_position (13 / 2)
     (mark_border 1 (mark_border 4 (bordered\<lparr>edge_front := [2]\<rparr>))) = Inr finished"
proof -
  let ?s = "mark_border 1 (mark_border 4 (bordered\<lparr>edge_front := [2]\<rparr>))"
  have q: "edge_front ?s = 2 # []" and ty: "etype (edge_heap ?s ! 2) = Front"
    by (simp_all add: bordered_def mark_border_def)
  have f: "FindCandidateVertex exact general_position 2 (13 / 2) (?s\<lparr>edge_front := []\<rparr>) = Inr None"
    by (simp add: candidate_defs bordered_def mark_border_def)
  have "mark_border 2 (?s\<lparr>edge_front := []\<rparr>) = finished"
    by (simp add: mark_border_def bordered_def finished_def)
  with step_no_candidate[OF q ty f] show ?thesis by simp
qed

lemma ExpandTriangulation_seeded:
  "ExpandTriangulation exact general_position (13 / 2) seeded = Some (Inr finished)"
proof -
  let ?E = "ExpandTriangulation exact general_position (13 / 2)"
  have q: "edge_front finished = []" "edge_front bordered \<noteq> []" "edge_front expanded \<noteq> []"
    "edge_front seeded \<noteq> []"
    "edge_front (mark_border 1 (mark_border 4 (bordered\<lparr>edge_front := [2]\<rparr>))) \<noteq> []"
    "edge_front (mark_border 4 (bordered\<lparr>edge_front := [1, 2]\<rparr>)) \<noteq> []"
    by (simp_all add: finished_def bordered_def expanded_def seeded_def)
  have 6: "?E finished = Some (Inr finished)"
    by (subst ExpandTriangulation.simps) (simp add: q)
  have 5: "?E (mark_border 1 (mark_border 4 (bordered\<lparr>edge_front := [2]\<rparr>))) =
           Some (Inr finished)"
    by (subst ExpandTriangulation.simps)
       (simp only: q if_False ExpandTriangulation_step_bordered3 sum.case 6)
  have 4: "?E (mark_border 4 (bordered\<lparr>edge_front := [1, 2]\<rparr>)) = Some (Inr finished)"
    by (subst ExpandTriangulation.simps)
       (simp only: q if_False ExpandTriangulation_step_bordered2 sum.case 5)
  have 3: "?E bordered = Some (Inr finished)"
    by (subst ExpandTriangulation.simps)
       (simp only: q if_False ExpandTriangulation_step_bordered sum.case 4)
  have 2: "?E expanded = Some (Inr finished)"
    by (subst ExpandTriangulation.simps)
       (simp only: q if_False ExpandTriangulation_step_expanded sum.case 3)
  show ?thesis
    by (subst ExpandTriangulation.simps)
       (simp only: q if_False ExpandTriangulation_step_seeded sum.case 2)
qed

lemma FindSeedTriangle_new:
  "FindSeedTriangle exact general_position (13 / 2) new_engine = Some (Inr finished)"
proof -
  have v: "vertices new_engine ! 0 =
      \<lparr>point = Vector3d 0 0 0, normal = Vector3d 0 0 1, edges = [], vtype = Orphan\<rparr>"
    "length (vertices new_engine) = 4"
    by (simp_all add: new_engine_eq)
  have f: "vtype (vertices finished ! Suc 0) = VFront" "vtype (vertices finished ! 2) = VFront"
    "vtype (vertices finished ! 3) = VFront"
    by (simp_all add: finished_def)
  show ?thesis
    unfolding FindSeedTriangle_def v upt4
    by (simp add: v TrySeed_new ExpandTriangulation_seeded f)
qed

lemma Run_parallelogram:
  "CreateFromPointCloudBallPivoting exact general_position (radius_search (points parallelogram))
     parallelogram [13 / 2] = Some (Inr finished)"
proof -
  have n: "new_engine\<lparr>mesh_triangles := []\<rparr> = new_engine"
    "new_engine\<lparr>border_edges := []\<rparr> = new_engine"
    "border_edges new_engine = []" "edge_front new_engine = []" "has_normals new_engine"
    by (simp_all add: new_engine_eq)
  have "Run_radius exact general_position (13 / 2) new_engine = Some (Inr finished)"
    by (simp add: Run_radius_exact n FindSeedTriangle_new)
  then show ?thesis
    by (simp add: CreateFromPointCloudBallPivoting_def new_engine_def[symmetric] Run_def n)
qed


lemma FindCandidateVertex_visit_front [simp]:
  "FindCandidateVertex_visit ar it (s\<lparr>edge_front := q\<rparr>) = FindCandidateVertex_visit ar it s"
  by (intro ext) (simp add: FindCandidateVertex_visit_def)

lemma FindCandidateVertex_front [simp]:
  "FindCandidateVertex ar it edge r (s\<lparr>edge_front := q\<rparr>) = FindCandidateVertex ar it edge r s"
  by (simp add: FindCandidateVertex_def Let_def split: option.splits)

subsection \<open>Reachable states of the engine on four points\<close>

lemma radius_search_valid: "set (radius_search ps q r) \<subseteq> {..<length ps}"
  by (auto simp: radius_search_def)

lemma reachable_new_engine: "reachable exact it new_engine"
  unfolding new_engine_def
  by (rule reachable_new[OF degenerate_fails_exact]) (simp add: radius_search_valid)

lemma reachable_seeded: "reachable exact it seeded"
  by (rule reachable_step[OF reachable_new_engine engine_TrySeed[OF _ TrySeed_new]])
     (simp add: new_engine_eq)

lemma engine_step_seeded: "engine_step exact general_position seeded expanded"
  by (rule engine_Expand[OF _ ExpandTriangulation_step_seeded]) (simp add: seeded_def)

lemma engine_step_expanded: "engine_step exact general_position expanded bordered"
  by (rule engine_Expand[OF _ ExpandTriangulation_step_expanded]) (simp add: expanded_def)

lemma engine_step_bordered: "engine_step exact it bordered reactivated"
  by (rule engine_border[OF update_border_edges_bordered])

lemma reachable_expanded: "reachable exact general_position expanded"
  by (rule reachable_step[OF reachable_seeded engine_step_seeded])

lemma reachable_bordered: "reachable exact general_position bordered"
  by (rule reachable_step[OF reachable_expanded engine_step_expanded])

section \<open>The classification of the edges\<close>

text \<open>
  C2. In every reachable state, an edge is an inner edge iff both its slots are filled; a
  border edge is in the border list, where only the expansion puts an edge when it marks it,
  and its second slot is empty; an edge is a front edge otherwise, that is iff its second slot
  is empty and it is not in the border list. A new edge is a front edge, registering its first
  triangle keeps it a front edge (the orientation test may swap its end points), and
  registering another triangle on an edge whose second slot is empty makes it an inner edge.
\<close>

theorem edge_classification:
  assumes "reachable ar it s" and "e < length (edge_heap s)"
  shows "(etype (edge_heap s ! e) = Inner \<longleftrightarrow>
            triangle0 (edge_heap s ! e) \<noteq> None \<and> triangle1 (edge_heap s ! e) \<noteq> None) \<and>
         (etype (edge_heap s ! e) = Border \<longrightarrow>
            e \<in> set (border_edges s) \<and> triangle1 (edge_heap s ! e) = None) \<and>
         (etype (edge_heap s ! e) = Front \<longleftrightarrow>
            triangle1 (edge_heap s ! e) = None \<and> e \<notin> set (border_edges s)) \<and>
         etype (new_edge a b) = Front \<and>
         (\<exists>swapped. AddAdjacentTriangle ar vs ts k (new_edge a b) =
            Inr \<lparr>source = (if swapped then b else a), target = (if swapped then a else b),
                 triangle0 = Some k, triangle1 = None, etype = Front\<rparr>) \<and>
         (triangle1 (edge_heap s ! e) = None \<and> triangle0 (edge_heap s ! e) \<noteq> Some k \<longrightarrow>
            AddAdjacentTriangle ar vs ts k (edge_heap s ! e) =
              Inr ((edge_heap s ! e)\<lparr>triangle1 := Some k, etype := Inner\<rparr>))"
proof -
  have ok: "topology_ok s" by (rule reachable_ok[OF assms(1)])
  from topology_okD(5)[OF ok] assms(2) have t0: "triangle0 (edge_heap s ! e) \<noteq> None"
    unfolding slots_ok_def by blast
  from topology_okD(6)[OF ok] assms(2)
  have inner: "etype (edge_heap s ! e) = Inner \<longleftrightarrow> triangle1 (edge_heap s ! e) \<noteq> None"
    and border: "etype (edge_heap s ! e) = Border \<longleftrightarrow> e \<in> set (border_edges s)"
    unfolding types_ok_def by blast+
  have 1: "etype (edge_heap s ! e) = Inner \<longleftrightarrow>
            triangle0 (edge_heap s ! e) \<noteq> None \<and> triangle1 (edge_heap s ! e) \<noteq> None"
    using inner t0 by simp
  have 2: "etype (edge_heap s ! e) = Border \<longrightarrow>
            e \<in> set (border_edges s) \<and> triangle1 (edge_heap s ! e) = None"
    using inner border by auto
  have 3: "etype (edge_heap s ! e) = Front \<longleftrightarrow>
            triangle1 (edge_heap s ! e) = None \<and> e \<notin> set (border_edges s)"
    using inner border by (cases "etype (edge_heap s ! e)") auto
  have 4: "etype (new_edge a b) = Front" by (simp add: new_edge_def)
  have 5: "triangle1 (edge_heap s ! e) = None \<and> triangle0 (edge_heap s ! e) \<noteq> Some k \<longrightarrow>
            AddAdjacentTriangle ar vs ts k (edge_heap s ! e) =
              Inr ((edge_heap s ! e)\<lparr>triangle1 := Some k, etype := Inner\<rparr>)"
    using AddAdjacentTriangle_second[OF t0, of k ar vs ts] by blast
  from 1 2 3 4 AddAdjacentTriangle_new[of ar vs ts k a b] 5 show ?thesis by blast
qed

theorem edge_classification_witness:
  "reachable exact general_position bordered \<and> 3 < length (edge_heap bordered) \<and>
   etype (edge_heap bordered ! 0) = Inner \<and>
   triangle0 (edge_heap bordered ! 0) = Some 0 \<and> triangle1 (edge_heap bordered ! 0) = Some 1 \<and>
   etype (edge_heap bordered ! 3) = Border \<and> 3 \<in> set (border_edges bordered) \<and>
   triangle1 (edge_heap bordered ! 3) = None \<and>
   etype (edge_heap bordered ! 1) = Front \<and> 1 \<notin> set (border_edges bordered) \<and>
   triangle1 (edge_heap bordered ! 1) = None \<and>
   AddAdjacentTriangle exact (vertices bordered) (triangle_heap bordered) 2 (edge_heap bordered ! 1) =
     Inr \<lparr>source = 1, target = 2, triangle0 = Some 0, triangle1 = Some 2, etype = Inner\<rparr>"
proof -
  have l: "0 < length (edge_heap bordered)" "1 < length (edge_heap bordered)"
    "3 < length (edge_heap bordered)"
    by (simp_all add: bordered_def)
  have v: "etype (edge_heap bordered ! 0) = Inner" "etype (edge_heap bordered ! 3) = Border"
    "etype (edge_heap bordered ! 1) = Front" "triangle0 (edge_heap bordered ! 0) = Some 0"
    "triangle0 (edge_heap bordered ! 1) = Some 0" "triangle1 (edge_heap bordered ! 0) = Some 1"
    "edge_heap bordered ! 1 =
       \<lparr>source = 1, target = 2, triangle0 = Some 0, triangle1 = None, etype = Front\<rparr>"
    by (simp_all add: bordered_def)
  note c = edge_classification[OF reachable_bordered]
  from c[OF l(1), of 0 0 "[]" "[]" 0] c[OF l(3), of 0 0 "[]" "[]" 0]
    c[OF l(2), of 0 0 "vertices bordered" "triangle_heap bordered" 2]
  show ?thesis
    using reachable_bordered l(3) v by simp
qed

section \<open>One iteration of the expansion\<close>

text \<open>
  C3. In a reachable state whose front queue starts with a front edge, \<^verbatim>\<open>FindCandidateVertex\<close>
  returns, and the iteration of \<^verbatim>\<open>ExpandTriangulation\<close> that pops the edge does one of two
  things. If there is no candidate, or the candidate is an inner vertex, or it is not
  compatible with the edge, or an edge from the candidate to an end point of the popped edge
  exists and is not a front edge, then the popped edge becomes a border edge at the end of the
  border list, and no triangle is created or emitted. Otherwise the triangle of the source, the
  target and the candidate, with the center that was computed, is added to the store and
  emitted in one of its orientations; the border list is unchanged.
\<close>

theorem ExpandTriangulation_step_border_or_create:
  assumes "reachable ar it s" and "edge_front s = edge # rest"
    and "etype (edge_heap s ! edge) = Front"
  shows "\<exists>found s'.
     FindCandidateVertex ar it edge r s = Inr found \<and>
     ExpandTriangulation_step ar it r s = Inr s' \<and>
     (if candidate_rejected ar s edge found
      then etype (edge_heap s' ! edge) = Border \<and>
           border_edges s' = border_edges s @ [edge] \<and>
           triangle_heap s' = triangle_heap s \<and> mesh_triangles s' = mesh_triangles s
      else \<exists>c ctr.
           found = Some (c, ctr) \<and>
           triangle_heap s' = triangle_heap s @
             [\<lparr>vert0 = source (edge_heap s ! edge), vert1 = target (edge_heap s ! edge),
               vert2 = c, ball_center = ctr\<rparr>] \<and>
           (mesh_triangles s' = mesh_triangles s @
              [(source (edge_heap s ! edge), target (edge_heap s ! edge), c)] \<or>
            mesh_triangles s' = mesh_triangles s @
              [(source (edge_heap s ! edge), c, target (edge_heap s ! edge))]) \<and>
           border_edges s' = border_edges s)"
proof -
  have ok: "topology_ok s" by (rule reachable_ok[OF assms(1)])
  let ?s1 = "s\<lparr>edge_front := rest\<rparr>"
  have e: "edge < length (edge_heap s)" by (rule pop_ok(2)[OF ok assms(2)])
  from ExpandTriangulation_step_cases[OF ok assms(2,3), of ar it r] obtain found where
    f: "FindCandidateVertex ar it edge r s = Inr found"
    and c: "if candidate_rejected ar s edge found
      then ExpandTriangulation_step ar it r s = Inr (mark_border edge ?s1)
      else \<exists>c ctr s2 e0 e1.
        found = Some (c, ctr) \<and>
        CreateTriangle ar (source (edge_heap s ! edge)) (target (edge_heap s ! edge)) c ctr
          ?s1 = Inr s2 \<and>
        topology_ok s2 \<and>
        triangle_frame (source (edge_heap s ! edge)) (target (edge_heap s ! edge)) c ctr
          ?s1 s2 \<and>
        etype (edge_heap s2 ! edge) = Inner \<and>
        GetLinkingEdge s2 c (source (edge_heap s2 ! edge)) = Some e0 \<and>
        GetLinkingEdge s2 c (target (edge_heap s2 ! edge)) = Some e1 \<and>
        e0 < length (edge_heap s2) \<and> e1 < length (edge_heap s2) \<and>
        ExpandTriangulation_step ar it r s =
          Inr (push_front_if_front e1 (push_front_if_front e0 s2))"
    by auto
  show ?thesis
  proof (cases "candidate_rejected ar s edge found")
    case True
    with c have res: "ExpandTriangulation_step ar it r s = Inr (mark_border edge ?s1)" by simp
    have "etype (edge_heap (mark_border edge ?s1) ! edge) = Border"
      using e by (simp add: mark_border_def)
    with f res True show ?thesis by simp
  next
    case False
    with c obtain c' ctr s2 e0 e1 where found: "found = Some (c', ctr)"
      and fr: "triangle_frame (source (edge_heap s ! edge)) (target (edge_heap s ! edge)) c' ctr
          ?s1 s2"
      and res: "ExpandTriangulation_step ar it r s =
          Inr (push_front_if_front e1 (push_front_if_front e0 s2))"
      by auto
    note D = triangle_frameD[OF fr]
    from f res False found D(1,2,4) show ?thesis by simp
  qed
qed

theorem ExpandTriangulation_step_border_or_create_witness:
  "reachable exact general_position seeded \<and> edge_front seeded = 0 # [1, 2] \<and>
   etype (edge_heap seeded ! 0) = Front \<and>
   FindCandidateVertex exact general_position 0 (13 / 2) seeded =
     Inr (Some (3, Vector3d (3 / 2) (- 2) 6)) \<and>
   \<not> candidate_rejected exact seeded 0 (Some (3, Vector3d (3 / 2) (- 2) 6)) \<and>
   (\<exists>s'. ExpandTriangulation_step exact general_position (13 / 2) seeded = Inr s' \<and>
      triangle_heap s' = triangle_heap seeded @
        [\<lparr>vert0 = 0, vert1 = 1, vert2 = 3, ball_center = Vector3d (3 / 2) (- 2) 6\<rparr>] \<and>
      mesh_triangles s' = mesh_triangles seeded @ [(0, 3, 1)] \<and>
      border_edges s' = border_edges seeded)"
proof -
  have q: "edge_front seeded = 0 # [1, 2]" and t: "etype (edge_heap seeded ! 0) = Front"
    and st: "source (edge_heap seeded ! 0) = 0" "target (edge_heap seeded ! 0) = 1"
    by (simp_all add: seeded_def)
  have f: "FindCandidateVertex exact general_position 0 (13 / 2) seeded =
     Inr (Some (3, Vector3d (3 / 2) (- 2) 6))"
    using FindCandidateVertex_seeded by simp
  have m: "mesh_triangles expanded = mesh_triangles seeded @ [(0, 3, 1)]"
    by (simp add: expanded_def seeded_def)
  from ExpandTriangulation_step_border_or_create[OF reachable_seeded q t, of general_position "13 / 2"]
  show ?thesis
    using reachable_seeded[of general_position] q t f m
    by (auto simp: ExpandTriangulation_step_seeded st split: if_splits)
qed

section \<open>An edge is expanded once\<close>

text \<open>
  C10. Every reachable state holds at most one edge for an unordered pair of vertices. When an
  iteration of \<^verbatim>\<open>ExpandTriangulation\<close> in a reachable state creates a triangle, the edge
  that it popped was a front edge with an empty second slot, and right after the call of
  \<^verbatim>\<open>CreateTriangle\<close> the new triangle is in the second slot of that edge, which is an inner
  edge. The edge is an inner edge in every later state \<open>t\<close> of the engine, and an iteration
  that pops it from the front queue of such a state only drops it: no edge is expanded into a
  triangle twice.
\<close>

theorem expanded_edge_becomes_Inner:
  assumes "reachable ar it s" and "edge_front s = edge # rest"
    and "ExpandTriangulation_step ar it r s = Inr s'"
    and "triangle_heap s' \<noteq> triangle_heap s"
    and "(engine_step ar it)\<^sup>*\<^sup>* s' t"
  shows "unique_edges s \<and>
     etype (edge_heap s ! edge) = Front \<and> triangle1 (edge_heap s ! edge) = None \<and>
     (\<exists>c ctr s2.
        CreateTriangle ar (source (edge_heap s ! edge)) (target (edge_heap s ! edge)) c ctr
          (s\<lparr>edge_front := rest\<rparr>) = Inr s2 \<and>
        triangle_heap s2 = triangle_heap s @
          [\<lparr>vert0 = source (edge_heap s ! edge), vert1 = target (edge_heap s ! edge),
            vert2 = c, ball_center = ctr\<rparr>] \<and>
        triangle0 (edge_heap s2 ! edge) = triangle0 (edge_heap s ! edge) \<and>
        triangle1 (edge_heap s2 ! edge) = Some (length (triangle_heap s)) \<and>
        etype (edge_heap s2 ! edge) = Inner) \<and>
     etype (edge_heap s' ! edge) = Inner \<and>
     etype (edge_heap t ! edge) = Inner \<and>
     ExpandTriangulation_step ar it r' (t\<lparr>edge_front := edge # rest'\<rparr>) =
       Inr (t\<lparr>edge_front := rest'\<rparr>)"
proof -
  note q = assms(2) and step = assms(3) and new = assms(4)
  have ok: "topology_ok s" by (rule reachable_ok[OF assms(1)])
  have law: "degenerate_fails ar" by (rule reachable_law[OF assms(1)])
  let ?s1 = "s\<lparr>edge_front := rest\<rparr>"
  let ?src = "source (edge_heap s ! edge)" and ?tgt = "target (edge_heap s ! edge)"
  have ok1: "topology_ok ?s1" and e: "edge < length (edge_heap s)"
    by (rule pop_ok[OF ok q])+
  have front: "etype (edge_heap s ! edge) = Front"
  proof (rule ccontr)
    assume "etype (edge_heap s ! edge) \<noteq> Front"
    from step_stale[OF q this, of ar it r] step new show False by simp
  qed
  then have "etype (edge_heap s ! edge) \<noteq> Inner" by simp
  from front_edge_slots[OF ok e this] obtain t0 where
    t0: "triangle0 (edge_heap s ! edge) = Some t0" "triangle1 (edge_heap s ! edge) = None"
      "slots (edge_heap s ! edge) = {t0}"
    by blast
  from ExpandTriangulation_step_cases[OF ok q front, of ar it r] obtain found where
    c: "if candidate_rejected ar s edge found
      then ExpandTriangulation_step ar it r s = Inr (mark_border edge ?s1)
      else \<exists>c ctr s2 e0 e1.
        found = Some (c, ctr) \<and>
        CreateTriangle ar ?src ?tgt c ctr ?s1 = Inr s2 \<and>
        topology_ok s2 \<and>
        triangle_frame ?src ?tgt c ctr ?s1 s2 \<and>
        etype (edge_heap s2 ! edge) = Inner \<and>
        GetLinkingEdge s2 c (source (edge_heap s2 ! edge)) = Some e0 \<and>
        GetLinkingEdge s2 c (target (edge_heap s2 ! edge)) = Some e1 \<and>
        e0 < length (edge_heap s2) \<and> e1 < length (edge_heap s2) \<and>
        ExpandTriangulation_step ar it r s =
          Inr (push_front_if_front e1 (push_front_if_front e0 s2))"
    by auto
  have "\<not> candidate_rejected ar s edge found"
  proof
    assume "candidate_rejected ar s edge found"
    with c step new show False by simp
  qed
  with c obtain c' ctr s2 e0 e1 where
    ct: "CreateTriangle ar ?src ?tgt c' ctr ?s1 = Inr s2" and ok2: "topology_ok s2"
    and fr: "triangle_frame ?src ?tgt c' ctr ?s1 s2"
    and inner: "etype (edge_heap s2 ! edge) = Inner"
    and res: "ExpandTriangulation_step ar it r s =
          Inr (push_front_if_front e1 (push_front_if_front e0 s2))"
    by auto
  note D = triangle_frameD[OF fr]
  have th: "triangle_heap s2 = triangle_heap s @
          [\<lparr>vert0 = ?src, vert1 = ?tgt, vert2 = c', ball_center = ctr\<rparr>]"
    using D(1) by simp
  have e2: "edge < length (edge_heap s2)" using e D(8) by simp
  have first: "triangle0 (edge_heap s2 ! edge) = triangle0 (edge_heap s ! edge)"
    using CreateTriangle_first[OF ct, of edge] e t0(1) by simp
  from topology_okD(6)[OF ok2] e2 inner obtain t1 where
    t1: "triangle1 (edge_heap s2 ! edge) = Some t1"
    unfolding types_ok_def by auto
  from topology_okD(5)[OF ok2] e2 have ne: "triangle0 (edge_heap s2 ! edge) \<noteq> Some t1"
    and sl: "\<forall>x \<in> slots (edge_heap s2 ! edge).
          x < length (triangle_heap s2) \<and>
          endpoints (edge_heap s2 ! edge) \<subseteq> corners (triangle_heap s2 ! x)"
    unfolding slots_ok_def using t1 by auto
  have t1in: "t1 \<in> slots (edge_heap s2 ! edge)" using t1 by (simp add: slots_def)
  have ends2: "endpoints (edge_heap s2 ! edge) = {?src, ?tgt}"
    using triangle_frame_edge(2)[OF fr, of edge] e by (simp add: endpoints_def)
  have second: "t1 = length (triangle_heap s)"
  proof (rule ccontr)
    assume "t1 \<noteq> length (triangle_heap s)"
    with sl t1in th have old: "t1 < length (triangle_heap s)" by auto
    then have same: "triangle_heap s2 ! t1 = triangle_heap s ! t1" by (simp add: th nth_append)
    from sl t1in ends2 same have in1: "?src \<in> corners (triangle_heap s ! t1)"
      and in2: "?tgt \<in> corners (triangle_heap s ! t1)" by auto
    from triangle_linked[OF ok old in1 in2 edge_ends(3)[OF ok e]] obtain x where
      x: "x < length (edge_heap s)" "endpoints (edge_heap s ! x) = {?src, ?tgt}"
        "t1 \<in> slots (edge_heap s ! x)"
      unfolding linked_def by blast
    have "endpoints (edge_heap s ! edge) = {?src, ?tgt}" by (simp add: endpoints_def)
    with x(2) have "endpoints (edge_heap s ! edge) = endpoints (edge_heap s ! x)" by simp
    then have "edge = x" by (rule unique_edge[OF ok e x(1)])
    with x(3) t0(3) have "t1 = t0" by simp
    with ne first t0(1) show False by simp
  qed
  have s': "s' = push_front_if_front e1 (push_front_if_front e0 s2)" using res step by simp
  have inner': "etype (edge_heap s' ! edge) = Inner" using inner by (simp add: s')
  have ne: "edge_front s \<noteq> []" using q by simp
  have ok': "topology_ok s'"
    using engine_step_ok[OF ok engine_Expand[OF ne step] law] by simp
  have e': "edge < length (edge_heap s')" using e2 by (simp add: s')
  from engine_steps_ok[OF assms(5) ok' law] have okt: "topology_ok t" and kept: "slots_kept s' t"
    by simp_all
  have innert: "etype (edge_heap t ! edge) = Inner"
    by (rule Inner_kept[OF ok' okt kept e' inner'])
  have "ExpandTriangulation_step ar it r' (t\<lparr>edge_front := edge # rest'\<rparr>) =
          Inr (t\<lparr>edge_front := edge # rest'\<rparr>\<lparr>edge_front := rest'\<rparr>)"
    by (rule step_stale[of _ edge rest']) (simp_all add: innert)
  then have stale: "ExpandTriangulation_step ar it r' (t\<lparr>edge_front := edge # rest'\<rparr>) =
       Inr (t\<lparr>edge_front := rest'\<rparr>)" by simp
  from ct th first t1 second inner
  have "\<exists>c ctr s2.
        CreateTriangle ar ?src ?tgt c ctr ?s1 = Inr s2 \<and>
        triangle_heap s2 = triangle_heap s @
          [\<lparr>vert0 = ?src, vert1 = ?tgt, vert2 = c, ball_center = ctr\<rparr>] \<and>
        triangle0 (edge_heap s2 ! edge) = triangle0 (edge_heap s ! edge) \<and>
        triangle1 (edge_heap s2 ! edge) = Some (length (triangle_heap s)) \<and>
        etype (edge_heap s2 ! edge) = Inner"
    by blast
  with topology_okD(4)[OF ok] front t0(2) inner' innert stale show ?thesis by blast
qed

lemma engine_steps_expanded: "(engine_step exact general_position)\<^sup>*\<^sup>* expanded reactivated"
  by (rule converse_rtranclp_into_rtranclp[OF engine_step_expanded
        r_into_rtranclp[of "engine_step exact general_position", OF engine_step_bordered]])

theorem expanded_edge_becomes_Inner_witness:
  "reachable exact general_position seeded \<and> edge_front seeded = 0 # [1, 2] \<and>
   ExpandTriangulation_step exact general_position (13 / 2) seeded = Inr expanded \<and>
   triangle_heap expanded \<noteq> triangle_heap seeded \<and>
   (engine_step exact general_position)\<^sup>*\<^sup>* expanded reactivated \<and>
   etype (edge_heap seeded ! 0) = Front \<and> triangle1 (edge_heap seeded ! 0) = None \<and>
   etype (edge_heap expanded ! 0) = Inner \<and> triangle1 (edge_heap expanded ! 0) = Some 1 \<and>
   etype (edge_heap reactivated ! 0) = Inner \<and>
   ExpandTriangulation_step exact general_position (13 / 2) (reactivated\<lparr>edge_front := 0 # [3]\<rparr>) =
     Inr (reactivated\<lparr>edge_front := [3]\<rparr>)"
proof -
  have q: "edge_front seeded = 0 # [1, 2]"
    and n: "triangle_heap expanded \<noteq> triangle_heap seeded"
    and v: "triangle1 (edge_heap expanded ! 0) = Some 1"
    by (simp_all add: seeded_def expanded_def)
  from expanded_edge_becomes_Inner[OF reachable_seeded q ExpandTriangulation_step_seeded n
      engine_steps_expanded, of "13 / 2" "[3]"]
  show ?thesis
    using reachable_seeded[of general_position] q ExpandTriangulation_step_seeded n
      engine_steps_expanded v
    by simp
qed

section \<open>The border revisit\<close>

text \<open>
  C4. At a radius change in a reachable state, with a radius that passes the test of \<^verbatim>\<open>Run\<close>,
  the scan of the border list returns, and \<^verbatim>\<open>Run\<close> goes on with the seed search or the
  expansion in the state \<open>s'\<close> that it leaves. The edges of the border list whose revisit
  succeeds (the ball of the new radius on the triangle of the edge exists, and the radius
  search around its center finds the corners of that triangle only) are front edges in \<open>s'\<close>,
  appended to the front queue in the order of the border list, and no longer in the border
  list; the other edges of the border list are still border edges in the border list, in the
  same order. All other edges are unchanged.
\<close>

theorem border_revisit:
  assumes "reachable ar it s" and "\<not> fle ar r (lit ar 0)"
  shows "\<exists>s'. update_border_edges ar r (border_edges s) (s\<lparr>border_edges := []\<rparr>) = Inr s' \<and>
     Run_radius ar it r s =
       (if edge_front s' = [] then FindSeedTriangle ar it r s'
        else ExpandTriangulation ar it r s') \<and>
     border_edges s' = filter (\<lambda>e. \<not> revisit_succeeds ar s r e) (border_edges s) \<and>
     edge_front s' = edge_front s @ filter (revisit_succeeds ar s r) (border_edges s) \<and>
     (\<forall>e \<in> set (border_edges s).
        etype (edge_heap s' ! e) = (if revisit_succeeds ar s r e then Front else Border)) \<and>
     (\<forall>e < length (edge_heap s). e \<notin> set (border_edges s) \<longrightarrow>
        edge_heap s' ! e = edge_heap s ! e)"
proof -
  have ok: "topology_ok s" by (rule reachable_ok[OF assms(1)])
  from border_scan_result[OF ok, of ar r] obtain s' where
    res: "update_border_edges ar r (border_edges s) (s\<lparr>border_edges := []\<rparr>) = Inr s'"
    and b: "border_edges s' = filter (\<lambda>e. \<not> revisit_succeeds ar s r e) (border_edges s)"
    and f: "edge_front s' = edge_front s @ filter (revisit_succeeds ar s r) (border_edges s)"
    and n: "\<forall>e < length (edge_heap s).
        edge_heap s' ! e =
          (if e \<in> set (border_edges s) \<and> revisit_succeeds ar s r e
           then (edge_heap s ! e)\<lparr>etype := Front\<rparr> else edge_heap s ! e)"
    by blast
  have run: "Run_radius ar it r s =
       (if edge_front s' = [] then FindSeedTriangle ar it r s'
        else ExpandTriangulation ar it r s')"
    using assms(2) res by (simp add: Run_radius_def)
  have ty: "\<forall>e \<in> set (border_edges s).
        etype (edge_heap s' ! e) = (if revisit_succeeds ar s r e then Front else Border)"
  proof
    fix e assume e: "e \<in> set (border_edges s)"
    with topology_okD(8)[OF ok] have l: "e < length (edge_heap s)"
      unfolding queues_ok_def by auto
    with topology_okD(6)[OF ok] e have "etype (edge_heap s ! e) = Border"
      unfolding types_ok_def by blast
    with n l e
    show "etype (edge_heap s' ! e) = (if revisit_succeeds ar s r e then Front else Border)"
      by simp
  qed
  have same: "\<forall>e < length (edge_heap s). e \<notin> set (border_edges s) \<longrightarrow>
        edge_heap s' ! e = edge_heap s ! e"
    using n by simp
  from res run b f ty same show ?thesis by blast
qed

lemma revisit_bordered: "revisit_succeeds exact bordered (13 / 2) 3"
  by (simp add: revisit_succeeds_def bordered_def search_13 parallelogram_geometry)

theorem border_revisit_witness:
  "reachable exact general_position bordered \<and> \<not> fle exact (13 / 2) (lit exact 0) \<and>
   border_edges bordered = [3] \<and> revisit_succeeds exact bordered (13 / 2) 3 \<and>
   (\<exists>s'. update_border_edges exact (13 / 2) (border_edges bordered)
            (bordered\<lparr>border_edges := []\<rparr>) = Inr s' \<and>
      Run_radius exact general_position (13 / 2) bordered =
        ExpandTriangulation exact general_position (13 / 2) s' \<and>
      border_edges s' = [] \<and> edge_front s' = edge_front bordered @ [3] \<and>
      etype (edge_heap s' ! 3) = Front \<and> edge_heap s' ! 0 = edge_heap bordered ! 0)"
proof -
  have b: "border_edges bordered = [3]" "0 < length (edge_heap bordered)"
    by (simp_all add: bordered_def)
  have r: "\<not> fle exact (13 / 2) (lit exact 0)" by simp
  from border_revisit[OF reachable_bordered r]
  show ?thesis
    using reachable_bordered b revisit_bordered r by auto
qed

section \<open>The errors of the run\<close>

text \<open>
  C6. \<^verbatim>\<open>Run\<close> on the engine of a point cloud, with a spatial index that returns indices of
  input points, returns: it never loops, and it dereferences no null pointer. It fails iff
  the point cloud has no normals or a radius of the list passes the test \<^verbatim>\<open>radius <= 0\<close>,
  with the error of \<^verbatim>\<open>LogError\<close> in both cases (the radii before the first such radius have
  been processed). With normals and no such radius it returns the engine, whose mesh holds
  the triangles of all the radii, in a state that the operations of the engine reach from
  the new engine. (The constructor reads the normal of every point; for a cloud without
  normals \<^verbatim>\<open>Run\<close> fails before any of them is used.)
\<close>

theorem Run_fails_iff:
  assumes "degenerate_fails ar"
    and "\<forall>q r. set (kdtree q r) \<subseteq> {..<length (points pcd)}"
  shows "((\<exists>err. Run ar it radii (BallPivoting_new kdtree pcd) = Some (Inl err)) \<longleftrightarrow>
            \<not> HasNormals pcd \<or> (\<exists>r \<in> set radii. fle ar r (lit ar 0))) \<and>
         (\<not> HasNormals pcd \<longrightarrow>
            Run ar it radii (BallPivoting_new kdtree pcd) =
              Some (Inl (LogError ''ReconstructBallPivoting requires normals''))) \<and>
         (HasNormals pcd \<and> (\<exists>r \<in> set radii. fle ar r (lit ar 0)) \<longrightarrow>
            Run ar it radii (BallPivoting_new kdtree pcd) =
              Some (Inl (LogError ''got an invalid, negative radius as parameter''))) \<and>
         (HasNormals pcd \<and> (\<forall>r \<in> set radii. \<not> fle ar r (lit ar 0)) \<longrightarrow>
            (\<exists>s'. Run ar it radii (BallPivoting_new kdtree pcd) = Some (Inr s') \<and>
                  reachable ar it s' \<and>
                  (engine_step ar it)\<^sup>*\<^sup>* (BallPivoting_new kdtree pcd) s'))"
proof -
  let ?s = "BallPivoting_new kdtree pcd"
  have clear: "?s\<lparr>mesh_triangles := []\<rparr> = ?s" by (simp add: BallPivoting_new_def)
  have hn: "has_normals ?s = HasNormals pcd" by (simp add: BallPivoting_new_def)
  have ok: "topology_ok ?s" by (rule topology_ok_new[OF assms(2)])
  have re: "reachable ar it ?s" by (rule reachable_new[OF assms])
  show ?thesis
  proof (cases "HasNormals pcd")
    case False
    then show ?thesis by (simp add: Run_def hn)
  next
    case True
    then have run: "Run ar it radii ?s = Run_loop ar it radii ?s"
      by (simp add: Run_def clear hn)
    show ?thesis
    proof (cases "\<forall>r \<in> set radii. \<not> fle ar r (lit ar 0)")
      case all: True
      with Run_loop_ok[OF ok assms(1), of radii it] obtain s' where
        r: "Run_loop ar it radii ?s = Some (Inr s')"
        and st: "(engine_step ar it)\<^sup>*\<^sup>* ?s s'"
        by auto
      from reachable_steps[OF st re] r st run True all show ?thesis by auto
    next
      case False
      with Run_loop_ok[OF ok assms(1), of radii it] run True show ?thesis by auto
    qed
  qed
qed

theorem Run_fails_iff_witness:
  "degenerate_fails exact \<and>
   (\<forall>q r. set (radius_search (points parallelogram) q r) \<subseteq> {..<length (points parallelogram)}) \<and>
   HasNormals parallelogram \<and> \<not> fle exact (13 / 2) (lit exact 0) \<and>
   fle exact (- 1) (lit exact 0) \<and>
   Run exact general_position [13 / 2]
     (BallPivoting_new (radius_search (points parallelogram)) parallelogram) =
     Some (Inr finished) \<and>
   reachable exact general_position finished \<and>
   Run exact general_position [13 / 2, - 1]
     (BallPivoting_new (radius_search (points parallelogram)) parallelogram) =
     Some (Inl (LogError ''got an invalid, negative radius as parameter'')) \<and>
   Run exact general_position [13 / 2]
     (BallPivoting_new (radius_search (points parallelogram))
        (parallelogram\<lparr>HasNormals := False\<rparr>)) =
     Some (Inl (LogError ''ReconstructBallPivoting requires normals''))"
proof -
  have ix: "\<forall>q r. set (radius_search (points parallelogram) q r)
                \<subseteq> {..<length (points parallelogram)}"
    by (simp add: radius_search_valid)
  have ix': "\<forall>q r. set (radius_search (points parallelogram) q r)
                \<subseteq> {..<length (points (parallelogram\<lparr>HasNormals := False\<rparr>))}"
    by (simp add: radius_search_valid)
  have n: "HasNormals parallelogram" "\<not> HasNormals (parallelogram\<lparr>HasNormals := False\<rparr>)"
    by (simp_all add: parallelogram_def)
  have r: "\<forall>r \<in> set [13 / 2 :: real]. \<not> fle exact r (lit exact 0)"
    "\<exists>r \<in> set [13 / 2, - 1 :: real]. fle exact r (lit exact 0)"
    by simp_all
  have run: "Run exact general_position [13 / 2]
     (BallPivoting_new (radius_search (points parallelogram)) parallelogram) =
     Some (Inr finished)"
    using Run_parallelogram by (simp add: CreateFromPointCloudBallPivoting_def)
  from Run_fails_iff[OF degenerate_fails_exact ix, of general_position "[13 / 2]"]
    Run_fails_iff[OF degenerate_fails_exact ix, of general_position "[13 / 2, - 1]"]
    Run_fails_iff[OF degenerate_fails_exact ix', of general_position "[13 / 2]"]
  show ?thesis
    using degenerate_fails_exact ix n r run by auto
qed

section \<open>The triangles of the mesh\<close>

lemma corners_triple:
  assumes "triangle_ok s t"
  shows "unordered_triple (mesh_triangles s ! t) = corners (triangle_heap s ! t)"
proof -
  from assms have
    "mesh_triangles s ! t =
       (vert0 (triangle_heap s ! t), vert1 (triangle_heap s ! t), vert2 (triangle_heap s ! t)) \<or>
     mesh_triangles s ! t =
       (vert0 (triangle_heap s ! t), vert2 (triangle_heap s ! t), vert1 (triangle_heap s ! t))"
    unfolding triangle_ok_def by (elim conjE)
  then show ?thesis by (auto simp: unordered_triple_def corners_def)
qed

lemma reachable_triples:
  assumes "reachable ar it s"
  shows "distinct (map unordered_triple (mesh_triangles s))"
proof -
  have ok: "topology_ok s" by (rule reachable_ok[OF assms])
  from topology_okD(7)[OF ok] have
    t: "\<forall>t < length (mesh_triangles s). triangle_ok s t"
    and d: "\<forall>t < length (mesh_triangles s). \<forall>t' < length (mesh_triangles s).
       corners (triangle_heap s ! t) = corners (triangle_heap s ! t') \<longrightarrow> t = t'"
    unfolding triangles_ok_def by blast+
  show ?thesis
    unfolding distinct_conv_nth
  proof (intro allI impI)
    fix i j
    assume i: "i < length (map unordered_triple (mesh_triangles s))"
      and j: "j < length (map unordered_triple (mesh_triangles s))" and ne: "i \<noteq> j"
    from i j have i': "i < length (mesh_triangles s)" and j': "j < length (mesh_triangles s)"
      by simp_all
    show "map unordered_triple (mesh_triangles s) ! i \<noteq>
          map unordered_triple (mesh_triangles s) ! j"
    proof
      assume "map unordered_triple (mesh_triangles s) ! i =
              map unordered_triple (mesh_triangles s) ! j"
      with i' j' have "unordered_triple (mesh_triangles s ! i) =
                       unordered_triple (mesh_triangles s ! j)" by simp
      with t i' j' have "corners (triangle_heap s ! i) = corners (triangle_heap s ! j)"
        by (simp add: corners_triple)
      with d i' j' ne show False by blast
    qed
  qed
qed

text \<open>
  C7. In every state that the engine reaches, the triangles of the mesh have three different
  vertices each, and no two of them have the same unordered triple of vertex indices. So it
  is of the mesh that \<^verbatim>\<open>Run\<close> returns, for every point cloud and list of radii, with a
  spatial index that returns indices of input points: the triangles are only ever appended
  to the mesh, which is empty at the start.
\<close>

theorem mesh_triangles_distinct:
  "(reachable ar it s \<longrightarrow>
      distinct (map unordered_triple (mesh_triangles s)) \<and>
      (\<forall>t \<in> set (mesh_triangles s). card (unordered_triple t) = 3)) \<and>
   (degenerate_fails ar \<and> (\<forall>q r. set (kdtree q r) \<subseteq> {..<length (points pcd)}) \<and>
    Run ar it radii (BallPivoting_new kdtree pcd) = Some (Inr s') \<longrightarrow>
      distinct (map unordered_triple (mesh_triangles s')) \<and>
      (\<forall>t \<in> set (mesh_triangles s'). card (unordered_triple t) = 3))"
proof -
  have a: "distinct (map unordered_triple (mesh_triangles x)) \<and>
      (\<forall>t \<in> set (mesh_triangles x). card (unordered_triple t) = 3)"
    if re: "reachable ar it x" for x
  proof
    show "distinct (map unordered_triple (mesh_triangles x))" by (rule reachable_triples[OF re])
    have ok: "topology_ok x" by (rule reachable_ok[OF re])
    from topology_okD(7)[OF ok] have
      t: "\<forall>t < length (mesh_triangles x). triangle_ok x t"
      unfolding triangles_ok_def by blast
    show "\<forall>t \<in> set (mesh_triangles x). card (unordered_triple t) = 3"
    proof
      fix m assume "m \<in> set (mesh_triangles x)"
      then obtain i where i: "i < length (mesh_triangles x)" "mesh_triangles x ! i = m"
        by (auto simp: in_set_conv_nth)
      with t have tk: "triangle_ok x i" by blast
      then have "card (corners (triangle_heap x ! i)) = 3" unfolding triangle_ok_def by blast
      with corners_triple[OF tk] i show "card (unordered_triple m) = 3" by simp
    qed
  qed
  have b: "reachable ar it s'"
    if law: "degenerate_fails ar" and ix: "\<forall>q r. set (kdtree q r) \<subseteq> {..<length (points pcd)}"
      and run: "Run ar it radii (BallPivoting_new kdtree pcd) = Some (Inr s')"
  proof -
    from Run_new[OF law ix, of it radii] run show ?thesis
      by (auto simp: CreateFromPointCloudBallPivoting_def split: if_splits)
  qed
  from a[of s] a[of s'] b show ?thesis by blast
qed

theorem mesh_triangles_distinct_witness:
  "reachable exact general_position expanded \<and>
   mesh_triangles expanded = [(0, 1, 2), (0, 3, 1)] \<and>
   unordered_triple (0, 1, 2) \<noteq> unordered_triple (0, 3, 1) \<and>
   distinct (map unordered_triple (mesh_triangles expanded)) \<and>
   degenerate_fails exact \<and>
   (\<forall>q r. set (radius_search (points parallelogram) q r) \<subseteq> {..<length (points parallelogram)}) \<and>
   Run exact general_position [13 / 2]
     (BallPivoting_new (radius_search (points parallelogram)) parallelogram) =
     Some (Inr finished) \<and>
   distinct (map unordered_triple (mesh_triangles finished))"
proof -
  have ix: "\<forall>q r. set (radius_search (points parallelogram) q r)
                \<subseteq> {..<length (points parallelogram)}"
    by (simp add: radius_search_valid)
  have run: "Run exact general_position [13 / 2]
     (BallPivoting_new (radius_search (points parallelogram)) parallelogram) =
     Some (Inr finished)"
    using Run_parallelogram by (simp add: CreateFromPointCloudBallPivoting_def)
  have m: "mesh_triangles expanded = [(0, 1, 2), (0, 3, 1)]" by (simp add: expanded_def)
  from mesh_triangles_distinct[of exact general_position expanded
      "radius_search (points parallelogram)" parallelogram "[13 / 2]" finished]
  show ?thesis
    using reachable_expanded degenerate_fails_exact ix run m by auto
qed

section \<open>The front queue\<close>






end
